theory Spec2Isabelle
  imports Complex_Main
begin

section \<open>fabulous-json: a shallow embedding of \<^verbatim>\<open>src/index.ts\<close>\<close>

text \<open>
  The module exports one function, \<^verbatim>\<open>stringify(value, options)\<close>. Its helpers at module
  level (\<^verbatim>\<open>sum\<close>, \<^verbatim>\<open>arrMin\<close>, \<^verbatim>\<open>arrMax\<close>, \<^verbatim>\<open>getColumnWidths\<close>, \<^verbatim>\<open>joinColumns\<close>,
  \<^verbatim>\<open>findMaxItemsWide\<close>, \<^verbatim>\<open>anyCommon\<close>, \<^verbatim>\<open>getTableColumnOrder\<close>, \<^verbatim>\<open>decimalAlignment\<close>) are pure;
  the functions nested in \<^verbatim>\<open>stringify\<close> (\<^verbatim>\<open>processValue\<close>, \<^verbatim>\<open>replaceObjectProperties\<close>,
  \<^verbatim>\<open>replaceArrayItems\<close>, \<^verbatim>\<open>tableOfArrays\<close>, \<^verbatim>\<open>tableOfObjects\<close>, \<^verbatim>\<open>formatArray\<close>,
  \<^verbatim>\<open>formatObject\<close>) close over the defaulted options; here they take that closure as a
  record.

  Every JavaScript exception is a value: a function that can throw returns an \<open>outcome\<close>.
  The recursion of \<^verbatim>\<open>processValue\<close> follows the input, and through a replacer it can go
  on forever, so the recursive functions carry fuel and \<open>NoFuel\<close> is the outcome of a call
  that needed more.
\<close>

subsection \<open>JavaScript values\<close>

text \<open>
  The values the program can be given. Scope of the model:
  \<^item> a number is \<^verbatim>\<open>NaN\<close>, an infinity, \<^verbatim>\<open>-0\<close> or a finite number \<open>Finite q\<close>. A finite
    double is identified with the decimal that is its text (\<^verbatim>\<open>Number::toString\<close>, the
    shortest decimal that reads back as the double): the double written \<^verbatim>\<open>0.1\<close> is
    \<open>Finite (1 / 10)\<close>. Such a decimal has at most 17 significant digits
    (\<open>number_exact\<close>);
  \<^item> a string is a list of code units below 256;
  \<^item> an object is its own enumerable properties in the order \<^verbatim>\<open>Object.keys\<close> lists them,
    and its prototype is \<^verbatim>\<open>Object.prototype\<close>;
  \<^item> an array is dense;
  \<^item> \<open>VFunction r\<close> is the anonymous function \<^verbatim>\<open>function () { return r }\<close>; the one
    place where the program calls a function found in its input is \<^verbatim>\<open>val.toJSON()\<close>.
\<close>

datatype jsnumber = Finite rat | NegZero | NaN | PosInfinity | NegInfinity

datatype jsval =
    VUndefined
  | VFunction jsval
  | VNull
  | VBoolean bool
  | VNumber jsnumber
  | VString string
  | VBigInt int
  | VArray "jsval list"
  | VObject "(string \<times> jsval) list"

text \<open>The number with the integer value \<open>i\<close>.\<close>

abbreviation VInt :: "int \<Rightarrow> jsval" where
  "VInt i \<equiv> VNumber (Finite (of_int i))"

datatype jstype = TUndefined | TFunction | TObject | TBoolean | TNumber | TString | TBigInt

fun typeof :: "jsval \<Rightarrow> jstype" where
  "typeof VUndefined = TUndefined"
| "typeof (VFunction r) = TFunction"
| "typeof VNull = TObject"
| "typeof (VBoolean b) = TBoolean"
| "typeof (VNumber n) = TNumber"
| "typeof (VString s) = TString"
| "typeof (VBigInt n) = TBigInt"
| "typeof (VArray xs) = TObject"
| "typeof (VObject kvs) = TObject"

fun isArray :: "jsval \<Rightarrow> bool" where
  "isArray (VArray xs) = True"
| "isArray v = False"

text \<open>\<^verbatim>\<open>typeof v !== 'undefined' && typeof v !== 'function'\<close>\<close>

definition representable :: "jsval \<Rightarrow> bool" where
  "representable v = (typeof v \<noteq> TUndefined \<and> typeof v \<noteq> TFunction)"

text \<open>JavaScript's truthiness, for a callback's result used as a condition.\<close>

fun truthy :: "jsval \<Rightarrow> bool" where
  "truthy VUndefined = False"
| "truthy VNull = False"
| "truthy (VBoolean b) = b"
| "truthy (VNumber n) = (case n of Finite q \<Rightarrow> q \<noteq> 0 | NegZero \<Rightarrow> False | NaN \<Rightarrow> False | _ \<Rightarrow> True)"
| "truthy (VBigInt n) = (n \<noteq> 0)"
| "truthy (VString s) = (s \<noteq> [])"
| "truthy v = True"

subsection \<open>Exceptions and fuel\<close>

datatype error = TypeError | RangeError | Error string

datatype 'a outcome = Return 'a | Throw error | NoFuel

fun and_then :: "'a outcome \<Rightarrow> ('a \<Rightarrow> 'b outcome) \<Rightarrow> 'b outcome" where
  "and_then (Return x) f = f x"
| "and_then (Throw e) f = Throw e"
| "and_then NoFuel f = NoFuel"

text \<open>A loop whose body can throw: the first outcome that is not a return ends it.\<close>

fun in_order :: "'a outcome list \<Rightarrow> 'a list outcome" where
  "in_order [] = Return []"
| "in_order (Return x # ms) = and_then (in_order ms) (\<lambda>xs. Return (x # xs))"
| "in_order (Throw e # ms) = Throw e"
| "in_order (NoFuel # ms) = NoFuel"

text \<open>
  A loop whose body can throw or leave the enclosing function by \<^verbatim>\<open>return null\<close>
  (\<open>Return None\<close>): the first step that does either ends it.
\<close>

fun until_null :: "'a option outcome list \<Rightarrow> 'a list option outcome" where
  "until_null [] = Return (Some [])"
| "until_null (Return (Some x) # ms) =
     and_then (until_null ms) (\<lambda>r. Return (map_option (\<lambda>xs. x # xs) r))"
| "until_null (Return None # ms) = Return None"
| "until_null (Throw e # ms) = Throw e"
| "until_null (NoFuel # ms) = NoFuel"

subsection \<open>Strings\<close>

definition newline :: char where
  "newline = CHR 0x0A"

definition dquote :: char where
  "dquote = CHR 0x22"

definition backslash :: char where
  "backslash = CHR 0x5C"

text \<open>\<^verbatim>\<open>s.includes('\n')\<close>\<close>

definition includes_newline :: "string \<Rightarrow> bool" where
  "includes_newline s = List.member s newline"

text \<open>\<^verbatim>\<open>items.join(sep)\<close>\<close>

fun join :: "string \<Rightarrow> string list \<Rightarrow> string" where
  "join sep [] = []"
| "join sep [x] = x"
| "join sep (x # y # ys) = x @ sep @ join sep (y # ys)"

text \<open>\<^verbatim>\<open>s.repeat(n)\<close> for a count that is a natural number.\<close>

definition repeat :: "string \<Rightarrow> nat \<Rightarrow> string" where
  "repeat s n = concat (replicate n s)"

text \<open>
  \<^verbatim>\<open>' '.repeat(n)\<close> for a computed count: a negative count throws a RangeError
  (\<^verbatim>\<open>String.prototype.repeat\<close>), and \<^verbatim>\<open>NaN\<close> (\<open>None\<close>, from arithmetic on
  \<^verbatim>\<open>undefined\<close>) counts as 0.
\<close>

fun spaces :: "int option \<Rightarrow> string outcome" where
  "spaces None = Return []"
| "spaces (Some n) = (if n < 0 then Throw RangeError else Return (replicate (nat n) CHR '' ''))"

text \<open>\<^verbatim>\<open>String(i)\<close> for an array index.\<close>

fun String_of_nat :: "nat \<Rightarrow> string" where
  "String_of_nat n =
     (if n < 10 then [''0123456789'' ! n]
      else String_of_nat (n div 10) @ [''0123456789'' ! (n mod 10)])"

declare String_of_nat.simps [simp del]

definition String_of_int :: "int \<Rightarrow> string" where
  "String_of_int i = (if i < 0 then CHR ''-'' # String_of_nat (nat (- i)) else String_of_nat (nat i))"

text \<open>
  \<^verbatim>\<open>Number::toString(x)\<close> for a finite number (ECMAScript 6.1.6.1.20). For \<open>x > 0\<close>
  take the integers \<open>n\<close>, \<open>k\<close> and \<open>s\<close> with \<open>k \<ge> 1\<close>, \<open>10\<^sup>k\<^sup>-\<^sup>1 \<le> s < 10\<^sup>k\<close>,
  \<open>s \<times> 10\<^sup>n\<^sup>-\<^sup>k = x\<close> and \<open>k\<close> as small as possible; the text is made of the digits of
  \<open>s\<close> and of \<open>n\<close>. \<open>decimal_exponent x\<close> is \<open>n\<close> (\<open>10\<^sup>n\<^sup>-\<^sup>1 \<le> x < 10\<^sup>n\<close>),
  \<open>significand x n\<close> the digits of \<open>s\<close>: the first 17 digits of \<open>x\<close> without the zeros at
  their end, which are all its digits when \<open>x\<close> is the decimal of a double.
  \<open>decimal_digits i\<close> is the decimal numeral of an integer \<open>i \<ge> 0\<close>.
\<close>

function decimal_digits :: "int \<Rightarrow> string" where
  "decimal_digits i =
     (if i < 10 then [''0123456789'' ! nat i]
      else decimal_digits (i div 10) @ [''0123456789'' ! nat (i mod 10)])"
  by pat_completeness auto
termination
  by (relation "measure nat") auto

declare decimal_digits.simps [simp del]

definition decimal_exponent :: "rat \<Rightarrow> int" where
  "decimal_exponent x =
     (if 1 \<le> x then int (length (decimal_digits \<lfloor>x\<rfloor>))
      else case find (\<lambda>m. 1 \<le> x * 10 ^ m)
                  [1..<Suc (length (decimal_digits (snd (quotient_of x))))] of
             Some m \<Rightarrow> 1 - int m
           | None \<Rightarrow> 0)"

definition seventeen_digits :: "rat \<Rightarrow> int \<Rightarrow> int" where
  "seventeen_digits x n =
     \<lfloor>if n \<le> 17 then x * 10 ^ nat (17 - n) else x / 10 ^ nat (n - 17)\<rfloor>"

definition significand :: "rat \<Rightarrow> int \<Rightarrow> string" where
  "significand x n =
     rev (dropWhile (\<lambda>ch. ch = CHR ''0'') (rev (decimal_digits (seventeen_digits x n))))"

definition positive_Number_toString :: "rat \<Rightarrow> string" where
  "positive_Number_toString x =
     (let n = decimal_exponent x;
          s = significand x n;
          k = int (length s)
      in if k \<le> n \<and> n \<le> 21 then s @ replicate (nat (n - k)) CHR ''0''
         else if 0 < n \<and> n \<le> 21 then take (nat n) s @ ''.'' @ drop (nat n) s
         else if - 6 < n \<and> n \<le> 0 then ''0.'' @ replicate (nat (- n)) CHR ''0'' @ s
         else (if k = 1 then s else take 1 s @ ''.'' @ drop 1 s)
              @ ''e'' @ (if n - 1 < 0 then ''-'' else ''+'') @ String_of_nat (nat \<bar>n - 1\<bar>))"

definition Number_toString :: "rat \<Rightarrow> string" where
  "Number_toString x =
     (if x = 0 then ''0''
      else if x < 0 then CHR ''-'' # positive_Number_toString (- x)
      else positive_Number_toString x)"


text \<open>
  \<^verbatim>\<open>JSON.stringify(x)\<close> for a number (SerializeJSONProperty, step 9): \<^verbatim>\<open>null\<close> when
  \<open>x\<close> is not finite. \<^verbatim>\<open>String(x)\<close> is \<open>ToString_number\<close>.
\<close>

fun JSON_stringify_number :: "jsnumber \<Rightarrow> string" where
  "JSON_stringify_number (Finite x) = Number_toString x"
| "JSON_stringify_number NegZero = ''0''"
| "JSON_stringify_number n = ''null''"

fun ToString_number :: "jsnumber \<Rightarrow> string" where
  "ToString_number (Finite x) = Number_toString x"
| "ToString_number NegZero = ''0''"
| "ToString_number NaN = ''NaN''"
| "ToString_number PosInfinity = ''Infinity''"
| "ToString_number NegInfinity = ''-Infinity''"

text \<open>
  \<^verbatim>\<open>JSON.stringify\<close> of a string (ECMAScript's QuoteJSONString): the two-character
  escapes, \<^verbatim>\<open>\u00XX\<close> for the other control characters, everything else as it is.
\<close>

definition hex_digit :: "nat \<Rightarrow> char" where
  "hex_digit d = ''0123456789abcdef'' ! d"

definition escape_char :: "char \<Rightarrow> string" where
  "escape_char ch =
     (if ch = dquote then [backslash, dquote]
      else if ch = backslash then [backslash, backslash]
      else if ch = CHR 0x08 then [backslash, CHR ''b'']
      else if ch = CHR 0x0C then [backslash, CHR ''f'']
      else if ch = CHR 0x0A then [backslash, CHR ''n'']
      else if ch = CHR 0x0D then [backslash, CHR ''r'']
      else if ch = CHR 0x09 then [backslash, CHR ''t'']
      else if (of_char ch :: nat) < 32
        then [backslash, CHR ''u'', CHR ''0'', CHR ''0'',
              hex_digit (of_char ch div 16), hex_digit (of_char ch mod 16)]
      else [ch])"

definition quote_string :: "string \<Rightarrow> string" where
  "quote_string s = dquote # concat (map escape_char s) @ [dquote]"

subsection \<open>Properties of values\<close>

text \<open>
  The keys that are array indices: the decimal text of a natural number. JavaScript lists
  such keys of an object first and in ascending order, whatever the order of insertion.
\<close>

definition is_digit :: "char \<Rightarrow> bool" where
  "is_digit ch = List.member ''0123456789'' ch"

definition nat_of_digits :: "string \<Rightarrow> nat" where
  "nat_of_digits s = foldl (\<lambda>n ch. 10 * n + (of_char ch - 48)) 0 s"

definition is_index :: "string \<Rightarrow> bool" where
  "is_index k = (k \<noteq> [] \<and> list_all is_digit k \<and> String_of_nat (nat_of_digits k) = k
                 \<and> nat_of_digits k < 4294967295)"

definition property_order :: "string list \<Rightarrow> string list" where
  "property_order ks =
     map String_of_nat (sort (map nat_of_digits (filter is_index ks)))
       @ filter (\<lambda>k. \<not> is_index k) ks"

text \<open>\<^verbatim>\<open>Object.keys(v)\<close> and \<^verbatim>\<open>Object.values(v)\<close>, for a value that is not nullish.\<close>

fun Object_keys :: "jsval \<Rightarrow> string list" where
  "Object_keys (VObject kvs) = map fst kvs"
| "Object_keys (VArray xs) = map String_of_nat [0..<length xs]"
| "Object_keys (VString s) = map String_of_nat [0..<length s]"
| "Object_keys v = []"

fun Object_values :: "jsval \<Rightarrow> jsval list" where
  "Object_values (VObject kvs) = map snd kvs"
| "Object_values (VArray xs) = xs"
| "Object_values (VString s) = map (\<lambda>ch. VString [ch]) s"
| "Object_values v = []"

text \<open>
  The members a value inherits. The property names of \<^verbatim>\<open>Object.prototype\<close>,
  \<^verbatim>\<open>Array.prototype\<close> and \<^verbatim>\<open>Function.prototype\<close> (ECMAScript 2023, with the legacy
  accessors of Annex B): each is a method, except \<^verbatim>\<open>__proto__\<close>, which reads the
  prototype itself.
\<close>

definition Object_prototype :: "string list" where
  "Object_prototype =
     [''constructor'', ''__defineGetter__'', ''__defineSetter__'', ''hasOwnProperty'',
      ''__lookupGetter__'', ''__lookupSetter__'', ''isPrototypeOf'', ''propertyIsEnumerable'',
      ''toString'', ''valueOf'', ''__proto__'', ''toLocaleString'']"

definition Array_prototype :: "string list" where
  "Array_prototype =
     [''length'', ''constructor'', ''at'', ''concat'', ''copyWithin'', ''fill'', ''find'', ''findIndex'',
      ''findLast'', ''findLastIndex'', ''lastIndexOf'', ''pop'', ''push'', ''reverse'', ''shift'',
      ''unshift'', ''slice'', ''sort'', ''splice'', ''includes'', ''indexOf'', ''join'', ''keys'',
      ''entries'', ''values'', ''forEach'', ''filter'', ''flat'', ''flatMap'', ''map'', ''every'',
      ''some'', ''reduce'', ''reduceRight'', ''toLocaleString'', ''toString'', ''toReversed'',
      ''toSorted'', ''toSpliced'', ''with'']"

definition Function_prototype :: "string list" where
  "Function_prototype =
     [''length'', ''name'', ''arguments'', ''caller'', ''constructor'', ''apply'', ''bind'', ''call'',
      ''toString'']"

text \<open>
  \<open>inherited chain prototype k\<close>: what reading \<open>k\<close> gives on a value without an own
  property \<open>k\<close>, whose prototype chain has the property names \<open>chain\<close> and begins with
  \<open>prototype\<close>. A method is a function; what it returns is never used.
\<close>

definition inherited :: "string list \<Rightarrow> jsval \<Rightarrow> string \<Rightarrow> jsval" where
  "inherited chain prototype k =
     (if k = ''__proto__'' then prototype
      else if List.member chain k then VFunction VUndefined
      else VUndefined)"

text \<open>
  \<^verbatim>\<open>v[k]\<close>, for a value that is not nullish: the own property, or else the inherited
  one. \<^verbatim>\<open>Object.prototype\<close> is read as an object without enumerable keys,
  \<^verbatim>\<open>Array.prototype\<close> as an empty array and \<^verbatim>\<open>Function.prototype\<close> as a function. The
  program reads the properties of arrays, objects and functions only (the rows of a
  table); a string is read for its own properties.
\<close>

fun property :: "jsval \<Rightarrow> string \<Rightarrow> jsval" where
  "property (VObject kvs) k =
     (case map_of kvs k of
        Some v \<Rightarrow> v
      | None \<Rightarrow> inherited Object_prototype (VObject []) k)"
| "property (VArray xs) k =
     (case find (\<lambda>i. String_of_nat i = k) [0..<length xs] of
        Some i \<Rightarrow> xs ! i
      | None \<Rightarrow>
          if k = ''length'' then VInt (int (length xs))
          else inherited (Array_prototype @ Object_prototype) (VArray []) k)"
| "property (VString s) k =
     (case find (\<lambda>i. String_of_nat i = k) [0..<length s] of
        Some i \<Rightarrow> VString [s ! i]
      | None \<Rightarrow> if k = ''length'' then VInt (int (length s)) else VUndefined)"
| "property (VFunction r) k =
     (if k = ''length'' then VInt 0
      else if k = ''name'' then VString []
      else if k = ''arguments'' \<or> k = ''caller'' then VNull
      else if k = ''prototype'' then VObject []
      else inherited (Function_prototype @ Object_prototype) (VFunction VUndefined) k)"
| "property v k = VUndefined"

text \<open>\<^verbatim>\<open>e?.[k]\<close>\<close>

fun optional_property :: "jsval \<Rightarrow> string \<Rightarrow> jsval" where
  "optional_property VUndefined k = VUndefined"
| "optional_property VNull k = VUndefined"
| "optional_property v k = property v k"

text \<open>
  \<^verbatim>\<open>k in v\<close>: whether \<open>v\<close> has the property \<open>k\<close>, its own or inherited; a TypeError
  when \<open>v\<close> is not an object.
\<close>

fun has_key :: "string \<Rightarrow> jsval \<Rightarrow> bool" where
  "has_key k (VObject kvs) = (List.member (map fst kvs) k \<or> List.member Object_prototype k)"
| "has_key k (VArray xs) =
     (List.member (map String_of_nat [0..<length xs]) k
      \<or> List.member (Array_prototype @ Object_prototype) k)"
| "has_key k (VFunction r) =
     (List.member [''prototype''] k \<or> List.member (Function_prototype @ Object_prototype) k)"
| "has_key k v = False"

fun in_operator :: "string \<Rightarrow> jsval \<Rightarrow> bool outcome" where
  "in_operator k (VObject kvs) = Return (has_key k (VObject kvs))"
| "in_operator k (VArray xs) = Return (has_key k (VArray xs))"
| "in_operator k (VFunction r) = Return (has_key k (VFunction r))"
| "in_operator k v = Throw TypeError"

subsection \<open>Module-level helpers (index.ts, lines 520 to 665)\<close>

text \<open>\<^verbatim>\<open>sum(ns)\<close>\<close>

definition sum_ns :: "nat list \<Rightarrow> nat" where
  "sum_ns ns = foldl (+) 0 ns"

text \<open>
  \<^verbatim>\<open>arrMin(ns)\<close> and \<^verbatim>\<open>arrMax(ns)\<close>: \<^verbatim>\<open>ns[0]\<close> is \<^verbatim>\<open>undefined\<close> (\<open>None\<close>) for an empty
  array.
\<close>

fun arrMin :: "nat list \<Rightarrow> nat option" where
  "arrMin [] = None"
| "arrMin (n # ns) = Some (foldl min n ns)"

fun arrMax :: "nat list \<Rightarrow> nat option" where
  "arrMax [] = None"
| "arrMax (n # ns) = Some (foldl max n ns)"

text \<open>\<^verbatim>\<open>Math.max(...ls)\<close> for the lengths of a group, which is never empty.\<close>

definition Math_max :: "nat list \<Rightarrow> nat" where
  "Math_max ls = foldl max 0 ls"

text \<open>
  \<^verbatim>\<open>getColumnWidths(lengths, columnCount)\<close>: \<^verbatim>\<open>Map.groupBy\<close> makes one group per
  remainder \<^verbatim>\<open>i % columnCount\<close>, in the order the remainders first occur (0, 1, ...), and
  the result is the maximum of each group. For \<^verbatim>\<open>columnCount = 0\<close> every remainder is
  \<^verbatim>\<open>NaN\<close>, one group.
\<close>

definition getColumnWidths :: "nat list \<Rightarrow> nat \<Rightarrow> nat list" where
  "getColumnWidths lengths columnCount =
     (if columnCount = 0 then (if lengths = [] then [] else [Math_max lengths])
      else map (\<lambda>j. Math_max (map (\<lambda>i. lengths ! i)
                        (filter (\<lambda>i. i mod columnCount = j) [0..<length lengths])))
             [0..<min columnCount (length lengths)])"

text \<open>
  \<^verbatim>\<open>joinColumns(items, columnWidths)\<close>: item \<open>i - 1\<close> is followed by a comma and
  \<^verbatim>\<open>columnWidths[i - 1] - items[i - 1].length + 1\<close> spaces.
\<close>

definition column_gap :: "nat list \<Rightarrow> string list \<Rightarrow> nat \<Rightarrow> int option" where
  "column_gap columnWidths items i =
     (if i - 1 < length columnWidths
      then Some (int (columnWidths ! (i - 1)) - int (length (items ! (i - 1))) + 1)
      else None)"

definition joinColumns :: "string list \<Rightarrow> nat list \<Rightarrow> string outcome" where
  "joinColumns items columnWidths =
     fold (\<lambda>i line. and_then line (\<lambda>l.
             and_then (spaces (column_gap columnWidths items i)) (\<lambda>pad.
               Return (l @ '','' @ pad @ items ! i))))
       [1..<length items]
       (Return (case items of [] \<Rightarrow> [] | x # xs \<Rightarrow> x))"

text \<open>
  \<^verbatim>\<open>Math.ceil(Math.sqrt(n))\<close> for an array length \<open>n\<close>: the least \<open>k\<close> with
  \<open>n \<le> k\<^sup>2\<close> (the double's square root is exact enough for every array length).
\<close>

definition ceil_sqrt :: "nat \<Rightarrow> nat" where
  "ceil_sqrt n = length (takeWhile (\<lambda>k. k * k < n) [0..<n])"

text \<open>
  The total width \<^verbatim>\<open>findMaxItemsWide\<close> compares with the budget:
  \<^verbatim>\<open>sum(columnWidths) + (mid - 1) * 2\<close>.
\<close>

definition totalWidth :: "nat list \<Rightarrow> int \<Rightarrow> int" where
  "totalWidth itemLengths mid = int (sum_ns (getColumnWidths itemLengths (nat mid))) + (mid - 1) * 2"

text \<open>The \<^verbatim>\<open>while (low <= high)\<close> loop of \<^verbatim>\<open>findMaxItemsWide\<close>.\<close>

function findMaxItemsWide_loop ::
  "nat list \<Rightarrow> int \<Rightarrow> int \<Rightarrow> int \<Rightarrow> int \<Rightarrow> nat list option \<Rightarrow> int \<times> nat list option" where
  "findMaxItemsWide_loop itemLengths maxLineLength low high best bestColumnWidths =
     (if low \<le> high then
        (let mid = (low + high) div 2;
             columnWidths = getColumnWidths itemLengths (nat mid)
         in if totalWidth itemLengths mid \<le> maxLineLength
            then findMaxItemsWide_loop itemLengths maxLineLength (mid + 1) high mid (Some columnWidths)
            else findMaxItemsWide_loop itemLengths maxLineLength low (mid - 1) best bestColumnWidths)
      else (best, bestColumnWidths))"
  by pat_completeness auto
termination
  by (relation "measure (\<lambda>(l, m, low, high, b, w). nat (high + 1 - low))") auto

declare findMaxItemsWide_loop.simps [simp del]

definition findMaxItemsWide :: "string list \<Rightarrow> nat list \<Rightarrow> int \<Rightarrow> nat \<times> nat list" where
  "findMaxItemsWide items itemLengths maxLineLength =
     (case findMaxItemsWide_loop itemLengths maxLineLength 1 (int (ceil_sqrt (length items))) 1 None of
        (best, bestColumnWidths) \<Rightarrow>
          (nat best,
           case bestColumnWidths of
             None \<Rightarrow> getColumnWidths itemLengths (nat best)
           | Some columnWidths \<Rightarrow> columnWidths))"

text \<open>\<^verbatim>\<open>anyCommon(a, b)\<close>\<close>

definition anyCommon :: "string list \<Rightarrow> string list \<Rightarrow> bool" where
  "anyCommon a b = list_ex (\<lambda>i. List.member b i) a"

text \<open>
  \<^verbatim>\<open>Array.from(new Set(keys.flat()))\<close>: the keys in the order of their first occurrence.
\<close>

definition in_first_seen_order :: "string list \<Rightarrow> string list" where
  "in_first_seen_order ks = rev (remdups (rev ks))"

text \<open>
  The sets \<^verbatim>\<open>before\<close> and \<^verbatim>\<open>after\<close> that \<^verbatim>\<open>getTableColumnOrder\<close> collects for a key:
  the loop over \<^verbatim>\<open>allKeys\<close> starts at \<^verbatim>\<open>j = 1\<close>, so both stay empty for
  \<^verbatim>\<open>allKeys[0]\<close>.
\<close>

definition keyPosition :: "string list list \<Rightarrow> string list \<Rightarrow> string \<Rightarrow> string list \<times> string list" where
  "keyPosition keys allKeys key =
     (if List.member (drop 1 allKeys) key
      then (concat (map (\<lambda>itemKeys. if List.member itemKeys key
                                    then takeWhile (\<lambda>k. k \<noteq> key) itemKeys else []) keys),
            concat (map (\<lambda>itemKeys. if List.member itemKeys key
                                    then drop 1 (dropWhile (\<lambda>k. k \<noteq> key) itemKeys) else []) keys))
      else ([], []))"

text \<open>The comparator of the final \<^verbatim>\<open>sort\<close>, on entries \<^verbatim>\<open>[key, {before, after}]\<close>.\<close>

definition int_of_bool :: "bool \<Rightarrow> int" where
  "int_of_bool b = (if b then 1 else 0)"

definition compareKeys ::
  "string \<times> string list \<times> string list \<Rightarrow> string \<times> string list \<times> string list \<Rightarrow> int" where
  "compareKeys a b =
     int_of_bool (List.member (fst (snd a)) (fst b)) - int_of_bool (List.member (fst (snd b)) (fst a))
       + int_of_bool (List.member (snd (snd b)) (fst a)) - int_of_bool (List.member (snd (snd a)) (fst b))"

text \<open>
  \<^verbatim>\<open>Array.prototype.sort\<close> with a comparator. ECMAScript fixes the result only for a
  comparator that is a consistent ordering, which this one need not be; for any other
  the order is the engine's. The program runs on V8 (its tests on Node.js), whose sort
  (\<^verbatim>\<open>third_party/v8/builtins/array-sort.tq\<close>) for fewer than 64 elements is
  \<^verbatim>\<open>CountAndMakeRun\<close>, which takes the longest run at the start of the array that is
  ascending (no element compares below its predecessor) or strictly descending, and
  reverses a descending one, followed by \<^verbatim>\<open>BinaryInsertionSort\<close> of the remaining
  elements into the run. From 64 elements on V8 also merges runs; that is not modelled,
  and the same two steps are taken.
\<close>

text \<open>The length of the run that begins with \<open>previous\<close> and goes on into \<open>rest\<close>.\<close>

fun run_length :: "('a \<Rightarrow> 'a \<Rightarrow> int) \<Rightarrow> bool \<Rightarrow> 'a \<Rightarrow> 'a list \<Rightarrow> nat" where
  "run_length cmp isDescending previous [] = 1"
| "run_length cmp isDescending previous (current # rest) =
     (let order = cmp current previous in
      if (if isDescending then order \<ge> 0 else order < 0) then 1
      else 1 + run_length cmp isDescending current rest)"

text \<open>
  \<^verbatim>\<open>CountAndMakeRun\<close>: the array with its first run made ascending, and the length of
  that run.
\<close>

definition CountAndMakeRun :: "('a \<Rightarrow> 'a \<Rightarrow> int) \<Rightarrow> 'a list \<Rightarrow> 'a list \<times> nat" where
  "CountAndMakeRun cmp xs =
     (case xs of
        elementHigh # elementLow # rest \<Rightarrow>
          (let isDescending = (cmp elementLow elementHigh < 0);
               runLength = 1 + run_length cmp isDescending elementLow rest
           in (if isDescending then rev (take runLength xs) @ drop runLength xs else xs, runLength))
      | _ \<Rightarrow> (xs, 1))"

text \<open>
  The binary search of \<^verbatim>\<open>BinaryInsertionSort\<close> for the place of \<open>pivot\<close> in
  \<open>run\<close>, between \<open>left\<close> and \<open>right\<close>.
\<close>

function insertion_point :: "('a \<Rightarrow> 'a \<Rightarrow> int) \<Rightarrow> 'a \<Rightarrow> 'a list \<Rightarrow> nat \<Rightarrow> nat \<Rightarrow> nat" where
  "insertion_point cmp pivot run left right =
     (if left < right then
        (let mid = left + (right - left) div 2 in
         if cmp pivot (run ! mid) < 0
         then insertion_point cmp pivot run left mid
         else insertion_point cmp pivot run (mid + 1) right)
      else left)"
  by pat_completeness auto
termination
  by (relation "measure (\<lambda>(cmp, pivot, run, left, right). right - left)") auto

declare insertion_point.simps [simp del]

text \<open>\<^verbatim>\<open>BinaryInsertionSort\<close>: the elements of \<open>todo\<close> are inserted into \<open>run\<close> in turn.\<close>

fun BinaryInsertionSort :: "('a \<Rightarrow> 'a \<Rightarrow> int) \<Rightarrow> 'a list \<Rightarrow> 'a list \<Rightarrow> 'a list" where
  "BinaryInsertionSort cmp run [] = run"
| "BinaryInsertionSort cmp run (pivot # todo) =
     (let left = insertion_point cmp pivot run 0 (length run)
      in BinaryInsertionSort cmp (take left run @ pivot # drop left run) todo)"

definition sort_by :: "('a \<Rightarrow> 'a \<Rightarrow> int) \<Rightarrow> 'a list \<Rightarrow> 'a list" where
  "sort_by cmp xs =
     (if length xs < 2 then xs
      else case CountAndMakeRun cmp xs of
             (ys, runLength) \<Rightarrow> BinaryInsertionSort cmp (take runLength ys) (drop runLength ys))"

text \<open>\<^verbatim>\<open>getTableColumnOrder(table, maxObjectProperties, tableMinSharedKeys)\<close>\<close>

definition getTableColumnOrder :: "jsval \<Rightarrow> int \<Rightarrow> int \<Rightarrow> string list option" where
  "getTableColumnOrder table maxObjectProperties tableMinSharedKeys =
     (if table = VNull then None
      else if typeof table \<noteq> TObject then None
      else
        let values = filter representable (Object_values table) in
        if length values \<le> 1 then None
        else if isArray (hd values) then
          (let len = length (Object_values (hd values)) in
           if list_all (\<lambda>el. isArray el \<and> length (Object_values el) = len) values
           then Some (map String_of_nat [0..<len])
           else None)
        else if list_ex (\<lambda>v. \<not> (typeof v = TObject \<and> v \<noteq> VNull)) values then None
        else
          let keys = map Object_keys values in
          if list_ex (\<lambda>ik. int (length ik) > maxObjectProperties) keys then None
          else
            let allKeys = in_first_seen_order (concat keys);
                sharedKeys = filter (\<lambda>key. list_all (has_key key) values) allKeys
            in
            if int (length sharedKeys) < min tableMinSharedKeys (int (length allKeys)) then None
            else
              let keyPositions = map (\<lambda>k. (k, keyPosition keys allKeys k)) (property_order allKeys) in
              if list_ex (\<lambda>kp. anyCommon (fst (snd kp)) (snd (snd kp))) keyPositions then None
              else Some (map fst (sort_by compareKeys keyPositions)))"

text \<open>
  \<^verbatim>\<open>decimalAlignment(numbers)\<close>, on a sparse array of cell texts (\<open>None\<close> where the row
  has no cell).
\<close>

definition decimalIndex :: "string \<Rightarrow> nat" where
  "decimalIndex n =
     (let d = length (takeWhile (\<lambda>ch. ch \<noteq> CHR ''.'') n)
      in if d < length n \<and> 0 < d then d else length n)"

definition decimalAlignment :: "string option list \<Rightarrow> string option list" where
  "decimalAlignment numbers =
     (let maxDecimalIndex = foldl max 0 (map decimalIndex (List.map_filter id numbers))
      in map (map_option (\<lambda>n. replicate (maxDecimalIndex - decimalIndex n) CHR '' '' @ n)) numbers)"

text \<open>
  \<^verbatim>\<open>!Number.isNaN(Number(s))\<close>: whether the text reads as a number (ECMAScript's
  StringToNumber: white space around an empty text, a signed decimal literal or
  \<^verbatim>\<open>Infinity\<close>, or an unsigned literal of base 16, 8 or 2).
\<close>

definition is_space :: "char \<Rightarrow> bool" where
  "is_space ch = List.member [CHR 0x09, CHR 0x0A, CHR 0x0B, CHR 0x0C, CHR 0x0D, CHR 0x20, CHR 0xA0] ch"

definition trim :: "string \<Rightarrow> string" where
  "trim s = rev (dropWhile is_space (rev (dropWhile is_space s)))"

definition exponent_part :: "string \<Rightarrow> bool" where
  "exponent_part s =
     (case s of
        [] \<Rightarrow> True
      | e # r \<Rightarrow>
          (e = CHR ''e'' \<or> e = CHR ''E'') \<and>
          (let ds = (case r of [] \<Rightarrow> [] | sg # r' \<Rightarrow> if sg = CHR ''+'' \<or> sg = CHR ''-'' then r' else r)
           in ds \<noteq> [] \<and> list_all is_digit ds))"

definition unsigned_decimal :: "string \<Rightarrow> bool" where
  "unsigned_decimal s =
     (s = ''Infinity'' \<or>
      (let d1 = takeWhile is_digit s; r1 = dropWhile is_digit s
       in case r1 of
            [] \<Rightarrow> d1 \<noteq> []
          | p # r2 \<Rightarrow>
              if p = CHR ''.''
              then (d1 \<noteq> [] \<or> takeWhile is_digit r2 \<noteq> []) \<and> exponent_part (dropWhile is_digit r2)
              else d1 \<noteq> [] \<and> exponent_part r1))"

definition based_literal :: "string \<Rightarrow> bool" where
  "based_literal s =
     (case s of
        z # b # ds \<Rightarrow>
          z = CHR ''0'' \<and> ds \<noteq> [] \<and>
          (if b = CHR ''x'' \<or> b = CHR ''X'' then list_all (List.member ''0123456789abcdefABCDEF'') ds
           else if b = CHR ''o'' \<or> b = CHR ''O'' then list_all (List.member ''01234567'') ds
           else if b = CHR ''b'' \<or> b = CHR ''B'' then list_all (List.member ''01'') ds
           else False)
      | _ \<Rightarrow> False)"

definition numeric_text :: "string \<Rightarrow> bool" where
  "numeric_text s =
     (let t = trim s in
      case t of
        [] \<Rightarrow> True
      | sg # r \<Rightarrow>
          based_literal t \<or>
          (if sg = CHR ''+'' \<or> sg = CHR ''-'' then unsigned_decimal r else unsigned_decimal t))"

subsection \<open>The options and the closure of \<^verbatim>\<open>stringify\<close>\<close>

text \<open>
  A callback option as the caller gave it: the key is missing, or it holds a value, or it
  holds a function (of the receiver \<^verbatim>\<open>this\<close>, the key and the value). A value of type
  function is \<open>Given (VFunction r)\<close>, the function that returns \<open>r\<close>.
\<close>

datatype 'f callback = Missing | Given jsval | GivenFunction 'f

datatype indent_option =
    IndentMissing
  | IndentNull
  | IndentNumber jsnumber
  | IndentString string
  | IndentOther

text \<open>
  \<^verbatim>\<open>StringifyOptions\<close>, field \<open>opt_x\<close> for the option \<^verbatim>\<open>x\<close>; \<open>None\<close> is a missing (or
  nullish) option. A call without options is the record with every option missing.
\<close>

record StringifyOptions =
  opt_replace :: "(jsval \<Rightarrow> string \<Rightarrow> jsval \<Rightarrow> jsval) callback"
  opt_indent :: indent_option
  opt_allowInline :: "(jsval \<Rightarrow> string \<Rightarrow> jsval \<Rightarrow> bool) callback"
  opt_maxLineLength :: "int option"
  opt_maxArrayItems :: "int option"
  opt_maxObjectProperties :: "int option"
  opt_maxArrayItemLength :: "rat option"
  opt_compactLongArrays :: "bool option"
  opt_allowTable :: "(jsval \<Rightarrow> string \<Rightarrow> jsval \<Rightarrow> bool) callback"
  opt_tables :: "bool option"
  opt_tableArrays :: "bool option"
  opt_tableObjects :: "bool option"
  opt_tableMinSharedKeys :: "int option"
  opt_tablePadEndOfRows :: "bool option"
  opt_tableDecimalAlignment :: "bool option"

definition no_options :: StringifyOptions where
  "no_options =
     \<lparr> opt_replace = Missing, opt_indent = IndentMissing, opt_allowInline = Missing,
       opt_maxLineLength = None, opt_maxArrayItems = None, opt_maxObjectProperties = None,
       opt_maxArrayItemLength = None, opt_compactLongArrays = None, opt_allowTable = Missing,
       opt_tables = None, opt_tableArrays = None, opt_tableObjects = None,
       opt_tableMinSharedKeys = None, opt_tablePadEndOfRows = None,
       opt_tableDecimalAlignment = None \<rparr>"

text \<open>
  The constants of \<^verbatim>\<open>stringify\<close> that its nested functions read, field \<open>cfg_x\<close> for the
  constant \<^verbatim>\<open>x\<close>.
\<close>

record closure =
  cfg_maxLineLength :: int
  cfg_maxArrayItems :: int
  cfg_maxObjectProperties :: int
  cfg_maxArrayItemLength :: rat
  cfg_compactLongArrays :: bool
  cfg_tableArrays :: bool
  cfg_tableObjects :: bool
  cfg_tableMinSharedKeys :: int
  cfg_tablePadEndOfRows :: bool
  cfg_tableDecimalAlignment :: bool
  cfg_indent :: string
  cfg_replaceFunc :: "(jsval \<Rightarrow> string \<Rightarrow> jsval \<Rightarrow> jsval) option"
  cfg_allowInline :: "(jsval \<Rightarrow> string \<Rightarrow> jsval \<Rightarrow> bool) option"
  cfg_allowTable :: "(jsval \<Rightarrow> string \<Rightarrow> jsval \<Rightarrow> bool) option"

text \<open>\<^verbatim>\<open>x ?? d\<close>\<close>

definition or_default :: "'a option \<Rightarrow> 'a \<Rightarrow> 'a" where
  "or_default x d = (case x of None \<Rightarrow> d | Some v \<Rightarrow> v)"

text \<open>
  The \<^verbatim>\<open>indent\<close> of lines 152 to 156:
  \<^verbatim>\<open>' '.repeat(Math.max(0, Math.min(10, options.indent)))\<close> for a number (\<^verbatim>\<open>repeat\<close>
  drops the fraction of its count and takes \<^verbatim>\<open>NaN\<close> as 0),
  \<^verbatim>\<open>options.indent.slice(0, 10)\<close> for a string, the empty string for \<^verbatim>\<open>null\<close>, two
  spaces otherwise.
\<close>

fun indent_count :: "jsnumber \<Rightarrow> nat" where
  "indent_count (Finite q) = nat \<lfloor>max 0 (min 10 q)\<rfloor>"
| "indent_count NegZero = 0"
| "indent_count NaN = 0"
| "indent_count PosInfinity = 10"
| "indent_count NegInfinity = 0"

fun effective_indent :: "indent_option \<Rightarrow> string" where
  "effective_indent IndentNull = []"
| "effective_indent (IndentNumber n) = repeat '' '' (indent_count n)"
| "effective_indent (IndentString s) = take 10 s"
| "effective_indent IndentMissing = ''  ''"
| "effective_indent IndentOther = ''  ''"

text \<open>\<^verbatim>\<open>'x' in options && typeof options.x !== 'function'\<close>\<close>

fun not_a_function :: "'f callback \<Rightarrow> bool" where
  "not_a_function Missing = False"
| "not_a_function (Given v) = (typeof v \<noteq> TFunction)"
| "not_a_function (GivenFunction f) = False"

text \<open>Calling \<open>VFunction r\<close> returns \<open>r\<close>.\<close>

fun call_result :: "jsval \<Rightarrow> jsval" where
  "call_result (VFunction r) = r"
| "call_result v = VUndefined"

text \<open>The function a validated callback option holds, if any.\<close>

fun replace_function :: "(jsval \<Rightarrow> string \<Rightarrow> jsval \<Rightarrow> jsval) callback \<Rightarrow> (jsval \<Rightarrow> string \<Rightarrow> jsval \<Rightarrow> jsval) option" where
  "replace_function (GivenFunction f) = Some f"
| "replace_function (Given (VFunction r)) = Some (\<lambda>this k v. r)"
| "replace_function cb = None"

fun permission_function :: "(jsval \<Rightarrow> string \<Rightarrow> jsval \<Rightarrow> bool) callback \<Rightarrow> (jsval \<Rightarrow> string \<Rightarrow> jsval \<Rightarrow> bool) option" where
  "permission_function (GivenFunction f) = Some f"
| "permission_function (Given (VFunction r)) = Some (\<lambda>this k v. truthy r)"
| "permission_function cb = None"

text \<open>Lines 139 to 150 and 170 to 172, with the indent of lines 152 to 156.\<close>

definition closure_of :: "StringifyOptions \<Rightarrow> closure" where
  "closure_of options =
     (let maxLineLength = or_default (opt_maxLineLength options) 100;
          tables = or_default (opt_tables options) True
      in \<lparr> cfg_maxLineLength = maxLineLength,
           cfg_maxArrayItems = or_default (opt_maxArrayItems options) 6,
           cfg_maxObjectProperties = or_default (opt_maxObjectProperties options) 6,
           cfg_maxArrayItemLength = or_default (opt_maxArrayItemLength options) (of_int maxLineLength / 2),
           cfg_compactLongArrays = or_default (opt_compactLongArrays options) True,
           cfg_tableArrays = (tables \<and> or_default (opt_tableArrays options) True),
           cfg_tableObjects = (tables \<and> or_default (opt_tableObjects options) True),
           cfg_tableMinSharedKeys = or_default (opt_tableMinSharedKeys options) 1,
           cfg_tablePadEndOfRows = or_default (opt_tablePadEndOfRows options) True,
           cfg_tableDecimalAlignment = or_default (opt_tableDecimalAlignment options) True,
           cfg_indent = effective_indent (opt_indent options),
           cfg_replaceFunc = replace_function (opt_replace options),
           cfg_allowInline = permission_function (opt_allowInline options),
           cfg_allowTable = permission_function (opt_allowTable options) \<rparr>)"

text \<open>
  \<^verbatim>\<open>allowInline === undefined || allowInline.bind(parentObj)(key, val)\<close>, and the same
  for \<^verbatim>\<open>allowTable\<close>.
\<close>

definition permitted :: "(jsval \<Rightarrow> string \<Rightarrow> jsval \<Rightarrow> bool) option \<Rightarrow> jsval \<Rightarrow> string \<Rightarrow> jsval \<Rightarrow> bool" where
  "permitted cb parentObj key val = (case cb of None \<Rightarrow> True | Some f \<Rightarrow> f parentObj key val)"

subsection \<open>\<^verbatim>\<open>formatArray\<close> and \<^verbatim>\<open>formatObject\<close>\<close>

text \<open>\<^verbatim>\<open>item[0] !== '[' && item[0] !== '{'\<close>\<close>

definition opens_bracket :: "string \<Rightarrow> bool" where
  "opens_bracket item = (case item of [] \<Rightarrow> False | ch # r \<Rightarrow> ch = CHR ''['' \<or> ch = CHR ''{'')"

text \<open>
  \<^verbatim>\<open>(max - min) < Math.max(4, mean * 0.25)\<close> with \<^verbatim>\<open>mean = sum(itemLengths) /
  items.length\<close>, in exact arithmetic.
\<close>

definition roughly_uniform :: "nat list \<Rightarrow> bool" where
  "roughly_uniform itemLengths =
     (case (arrMin itemLengths, arrMax itemLengths) of
        (Some mn, Some mx) \<Rightarrow>
          (of_int (int mx - int mn) :: rat)
            < max 4 (of_nat (sum_ns itemLengths) / of_nat (length itemLengths) * (1 / 4))
      | _ \<Rightarrow> False)"

text \<open>The one-item-per-line form both functions end with.\<close>

definition one_per_line :: "string \<Rightarrow> string \<Rightarrow> string \<Rightarrow> nat \<Rightarrow> string list \<Rightarrow> string" where
  "one_per_line opening closing indent depth items =
     (let inner = repeat indent (depth + 1)
      in opening @ [newline] @ inner @ join ('','' @ [newline] @ inner) items
           @ [newline] @ repeat indent depth @ closing)"

definition formatArray :: "closure \<Rightarrow> string list \<Rightarrow> nat \<Rightarrow> bool \<Rightarrow> nat \<Rightarrow> bool \<Rightarrow> string outcome" where
  "formatArray c items depth nestedItems keyLength allowInline =
     (if length items = 0 then Return ''[]''
      else
        let line = ''[ '' @ join '', '' items @ '' ]'' in
        if allowInline \<and> \<not> nestedItems \<and> int (length items) \<le> cfg_maxArrayItems c \<and>
           list_all (\<lambda>item. of_nat (length item) \<le> cfg_maxArrayItemLength c) items \<and>
           int keyLength + int (length line) \<le> cfg_maxLineLength c \<and> \<not> includes_newline line
        then Return line
        else
          let itemLengths = map length items in
          if cfg_compactLongArrays c \<and> int (length items) > cfg_maxArrayItems c \<and>
             list_all (\<lambda>item. \<not> includes_newline item \<and> \<not> opens_bracket item) items \<and>
             roughly_uniform itemLengths
          then
            (case findMaxItemsWide items itemLengths (cfg_maxLineLength c) of
               (itemsWide, columnWidths) \<Rightarrow>
                 if itemsWide = 0 then Throw RangeError
                 else
                   and_then
                     (in_order (map (\<lambda>i. joinColumns (take itemsWide (drop (i * itemsWide) items)) columnWidths)
                                  [0..<(length items + itemsWide - 1) div itemsWide]))
                     (\<lambda>rows. Return (one_per_line ''['' '']'' (cfg_indent c) depth rows)))
          else Return (one_per_line ''['' '']'' (cfg_indent c) depth items))"

definition formatObject :: "closure \<Rightarrow> string list \<Rightarrow> nat \<Rightarrow> bool \<Rightarrow> nat \<Rightarrow> bool \<Rightarrow> string" where
  "formatObject c items depth nestedItems keyLength allowInline =
     (if length items = 0 then ''{}''
      else
        let line = ''{ '' @ join '', '' items @ '' }'' in
        if allowInline \<and> \<not> nestedItems \<and> int (length items) \<le> cfg_maxObjectProperties c \<and>
           int keyLength + int (length line) \<le> cfg_maxLineLength c \<and> \<not> includes_newline line
        then line
        else one_per_line ''{'' ''}'' (cfg_indent c) depth items)"

subsection \<open>\<^verbatim>\<open>processValue\<close>, \<^verbatim>\<open>tableOfArrays\<close> and \<^verbatim>\<open>tableOfObjects\<close>\<close>

text \<open>
  \<^verbatim>\<open>JSON.stringify(val)\<close> for a string, a number or a bigint (line 193). ECMAScript's
  \<^verbatim>\<open>JSON.stringify\<close> throws a TypeError for a BigInt.
\<close>

fun JSON_stringify_scalar :: "jsval \<Rightarrow> string outcome" where
  "JSON_stringify_scalar (VString s) = Return (quote_string s)"
| "JSON_stringify_scalar (VNumber n) = Return (JSON_stringify_number n)"
| "JSON_stringify_scalar v = Throw TypeError"

text \<open>
  What a call of \<^verbatim>\<open>processValue\<close> returns: the object \<^verbatim>\<open>{ result, nested }\<close>;
  \<^verbatim>\<open>null\<close> (line 251); or, when no branch of the function is taken, \<^verbatim>\<open>undefined\<close>.
  Reading \<^verbatim>\<open>.result\<close> or \<^verbatim>\<open>.nested\<close> of the last two is a TypeError.
\<close>

datatype processed = Processed string bool | ProcessedNull | ProcessedUndefined

fun result_of :: "processed \<Rightarrow> string outcome" where
  "result_of (Processed r n) = Return r"
| "result_of p = Throw TypeError"

fun nested_of :: "processed \<Rightarrow> bool outcome" where
  "nested_of (Processed r n) = Return n"
| "nested_of p = Throw TypeError"

text \<open>\<^verbatim>\<open>replaceArrayItems(val)\<close> and \<^verbatim>\<open>replaceObjectProperties(val, keys)\<close>\<close>

definition replaceArrayItems :: "(jsval \<Rightarrow> string \<Rightarrow> jsval \<Rightarrow> jsval) \<Rightarrow> jsval \<Rightarrow> jsval" where
  "replaceArrayItems replaceFunc val =
     VArray (map (\<lambda>(i, item). replaceFunc val (String_of_nat i) item) (enumerate 0 (Object_values val)))"

definition replaceObjectProperties :: "(jsval \<Rightarrow> string \<Rightarrow> jsval \<Rightarrow> jsval) \<Rightarrow> jsval \<Rightarrow> string list \<Rightarrow> jsval" where
  "replaceObjectProperties replaceFunc val keys =
     VObject (map (\<lambda>k. (k, replaceFunc val k (property val k))) keys)"

text \<open>
  The flags \<^verbatim>\<open>nested\<close> and \<^verbatim>\<open>multipleNestedItems\<close> that the callback of
  \<^verbatim>\<open>val.map\<close> updates (lines 227 and 228).
\<close>

definition array_flags :: "jsval list \<Rightarrow> bool \<times> bool" where
  "array_flags items =
     fold (\<lambda>item (nested, multipleNestedItems).
             (nested \<or> typeof item = TObject, multipleNestedItems \<or> (nested \<and> typeof item = TObject)))
       items (False, False)"

text \<open>A column of a table under construction: its cells by row, and its width if set.\<close>

type_synonym table_column = "string option list \<times> nat option"

definition cell_at :: "table_column \<Rightarrow> nat \<Rightarrow> string option" where
  "cell_at col i = (if i < length (fst col) then fst col ! i else None)"

text \<open>\<^verbatim>\<open>Math.max(columnWidths[i] ?? 0, sl)\<close> over the cells that are set.\<close>

definition width_of_cells :: "string option list \<Rightarrow> nat option" where
  "width_of_cells cells =
     (case List.map_filter id cells of
        [] \<Rightarrow> None
      | s # r \<Rightarrow> Some (foldl max 0 (map length (s # r))))"

text \<open>Lines 344 to 348: the column of a table of arrays once its cells are rendered.\<close>

definition finish_array_column :: "closure \<Rightarrow> string option list \<Rightarrow> table_column" where
  "finish_array_column c cells =
     (if cfg_tableDecimalAlignment c \<and> list_all numeric_text (List.map_filter id cells)
      then decimalAlignment cells else cells,
      width_of_cells cells)"

text \<open>
  Lines 409 to 421: the column of a table of objects once its cells are rendered, when
  \<^verbatim>\<open>tableDecimalAlignment\<close> is on. \<open>None\<close> is \<^verbatim>\<open>return null\<close>.
\<close>

definition finish_object_column :: "closure \<Rightarrow> string \<Rightarrow> string option list \<Rightarrow> table_column option" where
  "finish_object_column c jsonKey cells =
     (let aligned = (if list_all numeric_text (List.map_filter id cells)
                     then decimalAlignment cells else cells);
          labelled = map (map_option (\<lambda>s. jsonKey @ '': '' @ s)) aligned
      in if list_ex (\<lambda>s. int (length s) > cfg_maxLineLength c) (List.map_filter id labelled)
         then None
         else Some (labelled, width_of_cells labelled))"

text \<open>\<^verbatim>\<open>column.find(e => e !== undefined)\<close>\<close>

definition first_defined :: "jsval list \<Rightarrow> jsval" where
  "first_defined column = (case find (\<lambda>e. e \<noteq> VUndefined) column of None \<Rightarrow> VUndefined | Some e \<Rightarrow> e)"

text \<open>
  One step of the inner loop that assembles a row (lines 360 to 368 and 445 to 454): the
  text column \<open>columnIndex\<close> adds to row \<open>i\<close>. \<open>lastFilledColumn\<close> is \<open>None\<close> when it is
  \<^verbatim>\<open>NaN\<close>.
\<close>

definition row_part :: "table_column list \<Rightarrow> nat \<Rightarrow> int option \<Rightarrow> nat \<Rightarrow> string outcome" where
  "row_part columns i lastFilledColumn columnIndex =
     (if columnIndex < length columns then
        (let col = columns ! columnIndex in
         case cell_at col i of
           None \<Rightarrow> spaces (map_option (\<lambda>w. int w + 2) (snd col))
         | Some s \<Rightarrow>
             and_then (spaces (map_option (\<lambda>w. int w - int (length s) + 1) (snd col)))
               (\<lambda>pad. Return (s @ (if Some (int columnIndex) = lastFilledColumn then [] else '','') @ pad)))
      else Throw TypeError)"

text \<open>
  \<^verbatim>\<open>rowArrs[i].length - 1\<close>, for a row that is not \<^verbatim>\<open>undefined\<close>. The rows of
  \<^verbatim>\<open>tableOfArrays\<close> are arrays and functions, whose \<^verbatim>\<open>length\<close> is a natural number.
\<close>

fun last_index :: "jsval \<Rightarrow> int option outcome" where
  "last_index VNull = Throw TypeError"
| "last_index VUndefined = Throw TypeError"
| "last_index row = Return (case property row ''length'' of VNumber (Finite n) \<Rightarrow> Some (\<lfloor>n\<rfloor> - 1) | v \<Rightarrow> None)"

text \<open>Lines 352 to 370: row \<open>i\<close> of a table of arrays.\<close>

definition array_row :: "closure \<Rightarrow> table_column list \<Rightarrow> nat \<Rightarrow> nat \<Rightarrow> jsval \<Rightarrow> string outcome" where
  "array_row c columns columnCount i row =
     (if row = VUndefined then Return []
      else
        and_then (last_index row) (\<lambda>lastFilledColumn.
          let ending = (if cfg_tablePadEndOfRows c then int columnCount
                        else (case lastFilledColumn of None \<Rightarrow> 0 | Some l \<Rightarrow> l + 1))
          in and_then (in_order (map (row_part columns i lastFilledColumn) [0..<nat ending]))
               (\<lambda>parts. Return (''[ '' @ concat parts @ '']''))))"

text \<open>\<^verbatim>\<open>columnOrder.findLastIndex(e => e in row)\<close>\<close>

definition findLastIndex :: "bool list \<Rightarrow> int" where
  "findLastIndex present = int (length (dropWhile (\<lambda>b. \<not> b) (rev present))) - 1"

text \<open>Lines 437 to 456: row \<open>i\<close> of a table of objects.\<close>

definition object_row :: "closure \<Rightarrow> table_column list \<Rightarrow> string list \<Rightarrow> nat \<Rightarrow> jsval \<Rightarrow> string outcome" where
  "object_row c columns columnOrder i row =
     (if row = VUndefined then Return []
      else
        and_then (in_order (map (\<lambda>e. in_operator e row) columnOrder)) (\<lambda>present.
          let lastFilledColumn = findLastIndex present;
              ending = (if cfg_tablePadEndOfRows c then int (length columnOrder) else lastFilledColumn + 1)
          in and_then (in_order (map (row_part columns i (Some lastFilledColumn)) [0..<nat ending]))
               (\<lambda>parts. Return (''{ '' @ concat parts @ ''}''))))"

text \<open>
  Lines 260 to 262: the key label put before row \<open>i\<close> of an object rendered as a table.
  \<^verbatim>\<open>jsonKeys[i]\<close> is \<^verbatim>\<open>undefined\<close> past the end, and reading its \<^verbatim>\<open>length\<close> throws.
\<close>

definition label_row :: "string list \<Rightarrow> int option \<Rightarrow> nat \<Rightarrow> string \<Rightarrow> string outcome" where
  "label_row jsonKeys keyColumnWidth i item =
     (if i < length jsonKeys then
        and_then (spaces (map_option (\<lambda>w. w - int (length (jsonKeys ! i))) keyColumnWidth))
          (\<lambda>pad. Return (jsonKeys ! i @ '':'' @ pad @ item))
      else Throw TypeError)"

text \<open>
  The bodies of the three mutually recursive functions. Each takes the three functions
  it calls as its first arguments (\<open>processValue_rec\<close>, \<open>tableOfArrays_rec\<close>,
  \<open>tableOfObjects_rec\<close>): the recursive definition below passes them with one unit of
  fuel less.
\<close>

type_synonym processValue_fun =
  "closure \<Rightarrow> string \<Rightarrow> jsval \<Rightarrow> nat \<Rightarrow> jsval \<Rightarrow> nat \<Rightarrow> bool \<Rightarrow> processed outcome"

type_synonym tableOfArrays_fun = "closure \<Rightarrow> jsval list \<Rightarrow> nat \<Rightarrow> string list option outcome"

type_synonym tableOfObjects_fun = "closure \<Rightarrow> jsval list \<Rightarrow> string list \<Rightarrow> string list option outcome"

text \<open>
  \<^verbatim>\<open>processValue(key, val, depth, parentObj, keyLength = 0, allowTables = true)\<close>, lines
  174 to 293.
\<close>

definition processValue_step ::
  "processValue_fun \<Rightarrow> tableOfArrays_fun \<Rightarrow> tableOfObjects_fun \<Rightarrow> processValue_fun" where
  "processValue_step processValue_rec tableOfArrays_rec tableOfObjects_rec c key val0 depth parentObj keyLength allowTables =
     (let val = (case cfg_replaceFunc c of None \<Rightarrow> val0 | Some replaceFunc \<Rightarrow> replaceFunc parentObj key val0) in
      if val = VNull then Return (Processed ''null'' False)
      else if typeof val = TString \<or> typeof val = TNumber \<or> typeof val = TBigInt then
        and_then (JSON_stringify_scalar val) (\<lambda>r. Return (Processed r False))
      else if typeof val = TBoolean then
        Return (Processed (if val = VBoolean True then ''true'' else ''false'') False)
      else if typeof val = TObject \<and> typeof (property val ''toJSON'') = TFunction then
        processValue_rec c key (call_result (property val ''toJSON'')) depth parentObj keyLength True
      else if isArray val then
        and_then
          (if cfg_tableArrays c \<and> allowTables \<and> permitted (cfg_allowTable c) parentObj key val then
             (let rval = (case cfg_replaceFunc c of None \<Rightarrow> val
                          | Some replaceFunc \<Rightarrow> replaceArrayItems replaceFunc val) in
              case getTableColumnOrder rval (cfg_maxObjectProperties c) (cfg_tableMinSharedKeys c) of
                None \<Rightarrow> Return None
              | Some columnOrder \<Rightarrow>
                  and_then
                    (if isArray (property rval ''0'')
                     then tableOfArrays_rec c (Object_values rval) (length columnOrder)
                     else tableOfObjects_rec c (Object_values rval) columnOrder)
                    (\<lambda>table. case table of
                       None \<Rightarrow> Return None
                     | Some items \<Rightarrow>
                         if list_all (\<lambda>e. int (length e) \<le> cfg_maxLineLength c) items
                         then and_then (formatArray c items depth True keyLength True)
                                (\<lambda>r. Return (Some (Processed r True)))
                         else Return None))
           else Return None)
          (\<lambda>tabled. case tabled of
             Some p \<Rightarrow> Return p
           | None \<Rightarrow>
               and_then
                 (in_order (map (\<lambda>(i, item).
                    and_then (processValue_rec c (String_of_nat i) item (depth + 1) val 0 True) result_of)
                    (enumerate 0 (Object_values val))))
                 (\<lambda>items. case array_flags (Object_values val) of
                    (nested, multipleNestedItems) \<Rightarrow>
                      and_then (formatArray c items depth multipleNestedItems keyLength
                                  (permitted (cfg_allowInline c) parentObj key val))
                        (\<lambda>r. Return (Processed r nested))))
      else if typeof val = TObject then
        (let keys = filter (\<lambda>k. representable (property val k)) (Object_keys val) in
         and_then
           (if cfg_tableObjects c \<and> allowTables \<and> permitted (cfg_allowTable c) parentObj key val then
              (let rval = (case cfg_replaceFunc c of None \<Rightarrow> val
                           | Some replaceFunc \<Rightarrow> replaceObjectProperties replaceFunc val keys) in
               case getTableColumnOrder rval (cfg_maxObjectProperties c) (cfg_tableMinSharedKeys c) of
                 None \<Rightarrow> Return None
               | Some columnOrder \<Rightarrow>
                   (let isArr = isArray (property rval (case keys of [] \<Rightarrow> ''undefined'' | k # ks \<Rightarrow> k)) in
                    if int (length columnOrder) > (if isArr then cfg_maxArrayItems c else cfg_maxObjectProperties c)
                    then Return (Some ProcessedNull)
                    else
                      let jsonKeys = map quote_string keys;
                          keyColumnWidth = map_option (\<lambda>m. int m + 1) (arrMax (map length jsonKeys))
                      in and_then
                           (if isArr
                            then tableOfArrays_rec c (Object_values rval) (length columnOrder)
                            else tableOfObjects_rec c (Object_values rval) columnOrder)
                           (\<lambda>table. case table of
                              None \<Rightarrow> Return None
                            | Some rows \<Rightarrow>
                                and_then
                                  (in_order (map (\<lambda>(i, item). label_row jsonKeys keyColumnWidth i item)
                                               (enumerate 0 rows)))
                                  (\<lambda>items.
                                     if list_ex (\<lambda>e. int (length e) > cfg_maxLineLength c) items
                                     then Return None
                                     else Return (Some (Processed (formatObject c items depth True keyLength True) True))))))
            else Return None)
           (\<lambda>tabled. case tabled of
              Some p \<Rightarrow> Return p
            | None \<Rightarrow>
                and_then
                  (in_order (map (\<lambda>k.
                     let keyString = quote_string k @ '': '' in
                     and_then (processValue_rec c k (property val k) (depth + 1) val (length keyString) True)
                       (\<lambda>p. and_then (nested_of p) (\<lambda>pn.
                          and_then (result_of p) (\<lambda>r. Return (keyString @ r, pn)))))
                     keys))
                  (\<lambda>entries.
                     Return (Processed
                       (formatObject c (map fst entries) depth (list_ex snd entries) keyLength
                          (permitted (cfg_allowInline c) parentObj key val))
                       (list_ex (\<lambda>k. typeof (property val k) = TObject) keys)))))
      else Return ProcessedUndefined)"

text \<open>\<^verbatim>\<open>tableOfArrays(rowArrs, columnCount)\<close>, lines 314 to 372.\<close>

definition tableOfArrays_step ::
  "processValue_fun \<Rightarrow> tableOfArrays_fun \<Rightarrow> tableOfObjects_fun \<Rightarrow> tableOfArrays_fun" where
  "tableOfArrays_step processValue_rec tableOfArrays_rec tableOfObjects_rec c rowArrs columnCount =
     and_then
       (until_null (map (\<lambda>i.
          let column = map (\<lambda>e. optional_property e (String_of_nat i)) rowArrs;
              plain =
                and_then
                  (until_null (map (\<lambda>v.
                     if v = VUndefined then Return (Some None)
                     else and_then (processValue_rec c (String_of_nat i) v 0 (VArray rowArrs) 0 False)
                            (\<lambda>p. and_then (result_of p) (\<lambda>s.
                               if int (length s) > cfg_maxLineLength c \<or> includes_newline s
                               then Return None else Return (Some (Some s)))))
                     column))
                  (\<lambda>cells. Return (map_option (finish_array_column c) cells))
          in case getTableColumnOrder (VArray column) (cfg_maxObjectProperties c) (cfg_tableMinSharedKeys c) of
               None \<Rightarrow> plain
             | Some subcolumnOrder \<Rightarrow>
                 (let isArr = isArray (first_defined column) in
                  if int (length subcolumnOrder) > (if isArr then cfg_maxArrayItems c else cfg_maxObjectProperties c)
                  then Return None
                  else
                    and_then
                      (if isArr then tableOfArrays_rec c column (length subcolumnOrder)
                       else tableOfObjects_rec c column subcolumnOrder)
                      (\<lambda>subtable. case subtable of
                         None \<Rightarrow> plain
                       | Some [] \<Rightarrow> Throw TypeError
                       | Some (s # r) \<Rightarrow> Return (Some (map Some (s # r), Some (length s))))))
          [0..<columnCount]))
       (\<lambda>built. case built of
          None \<Rightarrow> Return None
        | Some columns \<Rightarrow>
            and_then (in_order (map (\<lambda>(i, row). array_row c columns columnCount i row) (enumerate 0 rowArrs)))
              (\<lambda>table. Return (Some table)))"

text \<open>\<^verbatim>\<open>tableOfObjects(rowObjs, columnOrder)\<close>, lines 374 to 458.\<close>

definition tableOfObjects_step ::
  "processValue_fun \<Rightarrow> tableOfArrays_fun \<Rightarrow> tableOfObjects_fun \<Rightarrow> tableOfObjects_fun" where
  "tableOfObjects_step processValue_rec tableOfArrays_rec tableOfObjects_rec c rowObjs columnOrder =
     and_then
       (until_null (map (\<lambda>columnKey.
          let jsonKey = quote_string columnKey;
              column = map (\<lambda>e. optional_property e columnKey) rowObjs;
              plain =
                (if cfg_tableDecimalAlignment c then
                   and_then
                     (until_null (map (\<lambda>v.
                        if v = VUndefined then Return (Some None)
                        else and_then (processValue_rec c columnKey v 0 (VArray rowObjs) 0 False)
                               (\<lambda>p. and_then (result_of p) (\<lambda>s.
                                  if includes_newline s then Return None else Return (Some (Some s)))))
                        column))
                     (\<lambda>cells. Return (case cells of None \<Rightarrow> None
                                       | Some cs \<Rightarrow> finish_object_column c jsonKey cs))
                 else
                   and_then
                     (until_null (map (\<lambda>v.
                        if v = VUndefined then Return (Some None)
                        else and_then (processValue_rec c columnKey v 0 (VArray rowObjs) 0 False)
                               (\<lambda>p. and_then (result_of p) (\<lambda>r.
                                  let s = jsonKey @ '': '' @ r in
                                  if int (length s) > cfg_maxLineLength c \<or> includes_newline s
                                  then Return None else Return (Some (Some s)))))
                        column))
                     (\<lambda>cells. Return (map_option (\<lambda>cs. (cs, width_of_cells cs)) cells)))
          in case getTableColumnOrder (VArray column) (cfg_maxObjectProperties c) (cfg_tableMinSharedKeys c) of
               None \<Rightarrow> plain
             | Some subcolumnOrder \<Rightarrow>
                 (let isArr = isArray (first_defined column) in
                  if int (length subcolumnOrder) > (if isArr then cfg_maxArrayItems c else cfg_maxObjectProperties c)
                  then Return None
                  else
                    and_then
                      (if isArr then tableOfArrays_rec c column (length subcolumnOrder)
                       else tableOfObjects_rec c column subcolumnOrder)
                      (\<lambda>subtable. case map_option (map (\<lambda>s. jsonKey @ '': '' @ s)) subtable of
                         None \<Rightarrow> plain
                       | Some [] \<Rightarrow> Throw TypeError
                       | Some (s # r) \<Rightarrow> Return (Some (map Some (s # r), Some (length s))))))
          columnOrder))
       (\<lambda>built. case built of
          None \<Rightarrow> Return None
        | Some columns \<Rightarrow>
            and_then (in_order (map (\<lambda>(i, row). object_row c columns columnOrder i row) (enumerate 0 rowObjs)))
              (\<lambda>table. Return (Some table)))"

text \<open>The recursion: a call with no fuel left does not return.\<close>

fun processValue :: "nat \<Rightarrow> processValue_fun"
  and tableOfArrays :: "nat \<Rightarrow> tableOfArrays_fun"
  and tableOfObjects :: "nat \<Rightarrow> tableOfObjects_fun"
where
  "processValue 0 = (\<lambda>c key val depth parentObj keyLength allowTables. NoFuel)"
| "processValue (Suc n) = processValue_step (processValue n) (tableOfArrays n) (tableOfObjects n)"
| "tableOfArrays 0 = (\<lambda>c rowArrs columnCount. NoFuel)"
| "tableOfArrays (Suc n) = tableOfArrays_step (processValue n) (tableOfArrays n) (tableOfObjects n)"
| "tableOfObjects 0 = (\<lambda>c rowObjs columnOrder. NoFuel)"
| "tableOfObjects (Suc n) = tableOfObjects_step (processValue n) (tableOfArrays n) (tableOfObjects n)"

subsection \<open>\<^verbatim>\<open>JSON.stringify(value, replacer)\<close>\<close>

text \<open>
  The platform function the program returns through when the indent is empty, after
  ECMAScript's SerializeJSONProperty, SerializeJSONObject and SerializeJSONArray with an
  empty gap. \<open>replacerFunction\<close> is the replacer when it is a function and \<open>propertyList\<close>
  the keys it lists when it is an array; \<open>holder\<close> is the object or array the value is
  read from. The result \<open>None\<close> is \<^verbatim>\<open>undefined\<close>.
\<close>

definition SerializeJSONProperty_step ::
  "((jsval \<Rightarrow> string \<Rightarrow> jsval \<Rightarrow> jsval) option \<Rightarrow> string list option \<Rightarrow> string \<Rightarrow> jsval \<Rightarrow> jsval \<Rightarrow> string option outcome)
   \<Rightarrow> (jsval \<Rightarrow> string \<Rightarrow> jsval \<Rightarrow> jsval) option \<Rightarrow> string list option \<Rightarrow> string \<Rightarrow> jsval \<Rightarrow> jsval \<Rightarrow> string option outcome" where
  "SerializeJSONProperty_step SerializeJSONProperty_rec replacerFunction propertyList key holder value0 =
     (let value1 = (if (typeof value0 = TObject \<and> value0 \<noteq> VNull \<or> typeof value0 = TBigInt)
                       \<and> typeof (property value0 ''toJSON'') = TFunction
                    then call_result (property value0 ''toJSON'') else value0);
          val = (case replacerFunction of None \<Rightarrow> value1 | Some f \<Rightarrow> f holder key value1)
      in
      if val = VNull then Return (Some ''null'')
      else if val = VBoolean True then Return (Some ''true'')
      else if val = VBoolean False then Return (Some ''false'')
      else if typeof val = TString \<or> typeof val = TNumber \<or> typeof val = TBigInt then
        and_then (JSON_stringify_scalar val) (\<lambda>s. Return (Some s))
      else if isArray val then
        and_then
          (in_order (map (\<lambda>(i, item).
             and_then (SerializeJSONProperty_rec replacerFunction propertyList (String_of_nat i) val item)
               (\<lambda>strP. Return (or_default strP ''null'')))
             (enumerate 0 (Object_values val))))
          (\<lambda>partial. Return (Some (''['' @ join '','' partial @ '']'')))
      else if typeof val = TObject then
        and_then
          (in_order (map (\<lambda>P.
             and_then (SerializeJSONProperty_rec replacerFunction propertyList P val (property val P))
               (\<lambda>strP. Return (map_option (\<lambda>s. quote_string P @ '':'' @ s) strP)))
             (case propertyList of None \<Rightarrow> Object_keys val | Some K \<Rightarrow> K)))
          (\<lambda>partial. Return (Some (''{'' @ join '','' (List.map_filter id partial) @ ''}'')))
      else Return None)"

fun SerializeJSONProperty ::
  "nat \<Rightarrow> (jsval \<Rightarrow> string \<Rightarrow> jsval \<Rightarrow> jsval) option \<Rightarrow> string list option \<Rightarrow> string \<Rightarrow> jsval \<Rightarrow> jsval \<Rightarrow> string option outcome" where
  "SerializeJSONProperty 0 = (\<lambda>replacerFunction propertyList key holder val. NoFuel)"
| "SerializeJSONProperty (Suc n) = SerializeJSONProperty_step (SerializeJSONProperty n)"

text \<open>The property list of a replacer that is an array: its strings and its numbers.\<close>

fun property_name :: "jsval \<Rightarrow> string list" where
  "property_name (VString s) = [s]"
| "property_name (VNumber n) = [ToString_number n]"
| "property_name v = []"

fun property_list :: "(jsval \<Rightarrow> string \<Rightarrow> jsval \<Rightarrow> jsval) callback \<Rightarrow> string list option" where
  "property_list (Given (VArray xs)) = Some (in_first_seen_order (concat (map property_name xs)))"
| "property_list cb = None"

definition JSON_stringify ::
  "nat \<Rightarrow> jsval \<Rightarrow> (jsval \<Rightarrow> string \<Rightarrow> jsval \<Rightarrow> jsval) callback \<Rightarrow> string option outcome" where
  "JSON_stringify fuel val replacer =
     SerializeJSONProperty fuel (replace_function replacer) (property_list replacer)
       [] (VObject [([], val)]) val"

subsection \<open>\<^verbatim>\<open>stringify(value, options)\<close>\<close>

definition must_be_a_function :: "string \<Rightarrow> error" where
  "must_be_a_function name = Error ([CHR 0x27] @ name @ [CHR 0x27] @ '' must be a function.'')"

text \<open>
  Lines 138 to 518. The result \<open>Return None\<close> is \<^verbatim>\<open>undefined\<close>: the last line reads
  \<^verbatim>\<open>processValue('', value, 0, { '': value })?.result\<close>, which is \<^verbatim>\<open>undefined\<close> when
  \<^verbatim>\<open>processValue\<close> returned \<^verbatim>\<open>null\<close> or \<^verbatim>\<open>undefined\<close>.
\<close>

definition stringify :: "nat \<Rightarrow> jsval \<Rightarrow> StringifyOptions \<Rightarrow> string option outcome" where
  "stringify fuel val options =
     (if length (effective_indent (opt_indent options)) = 0
      then JSON_stringify fuel val (opt_replace options)
      else if not_a_function (opt_replace options) then Throw (must_be_a_function ''replace'')
      else if not_a_function (opt_allowInline options) then Throw (must_be_a_function ''allowInline'')
      else if not_a_function (opt_allowTable options) then Throw (must_be_a_function ''allowTable'')
      else
        and_then (processValue fuel (closure_of options) [] val 0 (VObject [([], val)]) 0 True)
          (\<lambda>p. Return (case p of Processed r n \<Rightarrow> Some r | ProcessedNull \<Rightarrow> None | ProcessedUndefined \<Rightarrow> None)))"

subsection \<open>Inputs and notation for the theorems\<close>

text \<open>A text given by its lines, and the width of each line after its leading spaces.\<close>

definition text_of_lines :: "string list \<Rightarrow> string" where
  "text_of_lines ls = join [newline] ls"

definition split_lines :: "string \<Rightarrow> string list" where
  "split_lines s = foldr (\<lambda>ch acc. if ch = newline then [] # acc else (ch # hd acc) # tl acc) s [[]]"

definition line_widths :: "string \<Rightarrow> nat list" where
  "line_widths s = map (\<lambda>l. length (dropWhile (\<lambda>ch. ch = CHR '' '') l)) (split_lines s)"

text \<open>\<^verbatim>\<open>[1, 2, 3, 4, 5, 6, 7]\<close>\<close>

definition seven :: jsval where
  "seven = VArray (map VInt [1, 2, 3, 4, 5, 6, 7])"

text \<open>
  The object of the repository's test \<^verbatim>\<open>tables with missing properties\<close>
  (index.test.ts, lines 223 to 241).
\<close>

definition missing_properties :: jsval where
  "missing_properties =
     VObject
       [(''a'', VObject [(''type'', VInt 35), (''rotation'', VArray [VInt 0, VInt 130, VInt 0])]),
        (''b'', VObject [(''type'', VInt 35)]),
        (''c'', VObject [(''type'', VInt 35)]),
        (''d'', VObject [(''type'', VInt 35), (''rotation'', VArray [VInt 90, VInt 0, VInt 0])]),
        (''e'', VObject [(''type'', VInt 35)])]"

text \<open>
  The rendered items of \<^verbatim>\<open>[1000, 1, 1, 1, 1000, 1, 1, 1, 1000, 1]\<close>, of lengths
  4, 1, 1, 1, 4, 1, 1, 1, 4, 1.
\<close>

definition packed_items :: "string list" where
  "packed_items = map String_of_int [1000, 1, 1, 1, 1000, 1, 1, 1, 1000, 1]"

subsection \<open>Values that stay out of the table paths\<close>

text \<open>
  \<open>untabled c v\<close>: the container \<open>v\<close> is no table candidate, since its kind of table is
  switched off or \<^verbatim>\<open>getTableColumnOrder\<close> rejects it. \<open>plain c v\<close>: \<open>v\<close> has no bigint,
  every array in it holds representable values only, no object in it has a \<^verbatim>\<open>toJSON\<close>
  function, and no container in it is a table candidate.
\<close>

definition untabled :: "closure \<Rightarrow> jsval \<Rightarrow> bool" where
  "untabled c v =
     (if (if isArray v then cfg_tableArrays c else cfg_tableObjects c)
      then getTableColumnOrder v (cfg_maxObjectProperties c) (cfg_tableMinSharedKeys c) = None
      else True)"

fun plain :: "closure \<Rightarrow> jsval \<Rightarrow> bool" where
  "plain c (VArray xs) = (untabled c (VArray xs) \<and> list_all (\<lambda>x. representable x \<and> plain c x) xs)"
| "plain c (VObject kvs) =
     (untabled c (VObject kvs) \<and> typeof (property (VObject kvs) ''toJSON'') \<noteq> TFunction
      \<and> list_all (\<lambda>kv. plain c (snd kv)) kvs)"
| "plain c (VBigInt i) = False"
| "plain c v = True"

subsection \<open>The lines of a rendered text\<close>

text \<open>
  What a line of the output holds between its indentation and the comma that may end it
  is its payload. \<open>scalar_text\<close> is the text of a null, a boolean, a number or a string;
  \<open>key_label\<close> is the label an object puts before a value (or nothing, in an array).
  \<open>leaf_payload\<close>: a scalar, an empty container or an opening bracket, after its label.
  \<open>payload_ok\<close>: a payload within the line budget, a leaf payload or a closing bracket.
  \<open>line_ok\<close>: some repetitions of the indent, a payload that is \<open>payload_ok\<close>, and
  possibly a comma.
\<close>

definition scalar_text :: "string \<Rightarrow> bool" where
  "scalar_text t = (t = ''null'' \<or> t = ''true'' \<or> t = ''false'' \<or> (\<exists>n. t = JSON_stringify_number n) \<or> (\<exists>s. t = quote_string s))"

definition key_label :: "string \<Rightarrow> bool" where
  "key_label l = (l = [] \<or> (\<exists>k. l = quote_string k @ '': ''))"

definition leaf_payload :: "string \<Rightarrow> bool" where
  "leaf_payload p =
     (\<exists>l b. p = l @ b \<and> key_label l \<and> (scalar_text b \<or> b = ''['' \<or> b = ''{'' \<or> b = ''[]'' \<or> b = ''{}''))"

definition closing_bracket :: "string \<Rightarrow> bool" where
  "closing_bracket b = (b = '']'' \<or> b = ''}'')"

definition payload_ok :: "closure \<Rightarrow> string \<Rightarrow> bool" where
  "payload_ok c p = (int (length p) \<le> cfg_maxLineLength c \<or> leaf_payload p \<or> closing_bracket p)"

definition line_ok :: "closure \<Rightarrow> string \<Rightarrow> bool" where
  "line_ok c L = (\<exists>k p t. L = repeat (cfg_indent c) k @ p @ t \<and> (t = [] \<or> t = '','') \<and> payload_ok c p)"

text \<open>
  The invariants of the layout engine. \<open>value_ok c keyLength s\<close>: \<open>s\<close>, the text of a
  value rendered after a label of \<open>keyLength\<close> characters, is one line (a scalar, an empty
  container, or a text that fits the budget with its label), or an opening bracket,
  lines that are \<open>line_ok\<close> and a closing line. \<open>item_ok\<close>: the same for an item of a
  container, its label included. \<open>cells_no_newline\<close>: no cell of a table column has a line
  break.
\<close>

definition closing_line :: "closure \<Rightarrow> string \<Rightarrow> bool" where
  "closing_line c L = (\<exists>k b. L = repeat (cfg_indent c) k @ b \<and> closing_bracket b)"

definition lines_ok :: "closure \<Rightarrow> string list \<Rightarrow> bool" where
  "lines_ok c ls = (ls \<noteq> [] \<and> list_all (\<lambda>l. \<not> includes_newline l) ls \<and> list_all (line_ok c) ls)"

definition item_ok :: "closure \<Rightarrow> string \<Rightarrow> bool" where
  "item_ok c it =
     (\<exists>ls. it = text_of_lines ls \<and> list_all (\<lambda>l. \<not> includes_newline l) ls \<and>
        ((\<exists>p. ls = [p] \<and> payload_ok c p)
         \<or> (\<exists>p mid cl. ls = p # mid @ [cl] \<and> payload_ok c p \<and> list_all (line_ok c) mid \<and> closing_line c cl)))"

definition value_ok :: "closure \<Rightarrow> nat \<Rightarrow> string \<Rightarrow> bool" where
  "value_ok c keyLength s =
     (\<exists>ls. s = text_of_lines ls \<and> list_all (\<lambda>l. \<not> includes_newline l) ls \<and>
        ((\<exists>l. ls = [l] \<and> (scalar_text l \<or> l = ''[]'' \<or> l = ''{}''
                            \<or> int keyLength + int (length l) \<le> cfg_maxLineLength c))
         \<or> (\<exists>b mid cl. ls = b # mid @ [cl] \<and> (b = ''['' \<or> b = ''{'') \<and> list_all (line_ok c) mid
                \<and> closing_line c cl)))"

definition cells_no_newline :: "string option list \<Rightarrow> bool" where
  "cells_no_newline cells = list_all (\<lambda>cell. case cell of None \<Rightarrow> True | Some s \<Rightarrow> \<not> includes_newline s) cells"

subsection \<open>JSON texts\<close>

text \<open>
  \<open>json_text s v\<close>: the text \<open>s\<close> is a JSON text of the value \<open>v\<close>, after the grammar of
  ECMA-404. An array is \<^verbatim>\<open>[\<close>, its elements separated by commas, and \<^verbatim>\<open>]\<close>; an
  object is \<^verbatim>\<open>{\<close>, its members (a quoted key, a colon and a value) separated by commas,
  and \<^verbatim>\<open>}\<close>; white space may surround every bracket, comma and colon. A number is
  written with its decimal digits and a string as \<^verbatim>\<open>JSON.stringify\<close> writes it, which is
  how \<^verbatim>\<open>JSON.parse\<close> reads them back. \<open>weave items seps\<close> is the items with the
  separators between them. \<open>json_value v\<close>: \<open>v\<close> is built from null, booleans, numbers,
  strings, arrays and objects with distinct keys.
\<close>

definition json_ws :: "string \<Rightarrow> bool" where
  "json_ws w = list_all (\<lambda>ch. ch = CHR '' '' \<or> ch = newline \<or> ch = CHR 0x09 \<or> ch = CHR 0x0D) w"






section \<open>Theorems\<close>

subsection \<open>The indent\<close>

lemma repeat_space: "repeat '' '' n = replicate n CHR '' ''"
  by (induction n) (simp_all add: repeat_def)

lemma indent_count_clamp: "int (indent_count (Finite q)) = max 0 (min 10 \<lfloor>q\<rfloor>)"
  by (auto simp: min_def max_def floor_less_iff le_floor_iff)

lemma indent_count_le: "indent_count n \<le> 10"
proof (cases n)
  case (Finite q)
  have "int (indent_count (Finite q)) \<le> 10"
    unfolding indent_count_clamp by simp
  then have "indent_count (Finite q) \<le> 10"
    by linarith
  with Finite show ?thesis by (simp only:)
qed simp_all

lemma effective_indent_le: "length (effective_indent i) \<le> 10"
  by (cases i) (simp_all add: repeat_space indent_count_le)

text \<open>
  Claim C10. Whatever the \<^verbatim>\<open>indent\<close> option is, the indent unit has at most 10
  characters. A number gives that many spaces, clamped into 0 to 10 (its fraction dropped;
  10 for \<^verbatim>\<open>Infinity\<close>; 0 for \<^verbatim>\<open>-Infinity\<close>, \<^verbatim>\<open>NaN\<close> and \<^verbatim>\<open>-0\<close>);
  a string gives its first 10 characters; \<^verbatim>\<open>null\<close> gives the empty indent, and the call
  then returns what \<^verbatim>\<open>JSON.stringify(value, options.replace)\<close> returns.
\<close>

theorem effective_indent_at_most_ten:
  "length (effective_indent i) \<le> 10
   \<and> effective_indent (IndentNumber n) = replicate (indent_count n) CHR '' ''
   \<and> indent_count n \<le> 10
   \<and> int (indent_count (Finite q)) = max 0 (min 10 \<lfloor>q\<rfloor>)
   \<and> indent_count PosInfinity = 10
   \<and> indent_count NegInfinity = 0
   \<and> indent_count NaN = 0
   \<and> indent_count NegZero = 0
   \<and> effective_indent (IndentString s) = take 10 s
   \<and> effective_indent IndentNull = []
   \<and> stringify fuel val (options\<lparr>opt_indent := IndentNull\<rparr>) = JSON_stringify fuel val (opt_replace options)"
  using effective_indent_le [of i] indent_count_le [of n] indent_count_clamp [of q]
  by (simp add: repeat_space stringify_def)

subsection \<open>The empty indent\<close>

text \<open>
  Claim C6. When the indent is empty, \<^verbatim>\<open>stringify(v, options)\<close> is
  \<^verbatim>\<open>JSON.stringify(v, options.replace)\<close>, the compact encoding under the replacer, and
  no other option has an effect: two option sets with an empty indent and the same
  replacer give the same result.
\<close>

theorem empty_indent_is_JSON_stringify:
  assumes "effective_indent (opt_indent options) = []"
  shows "stringify fuel val options = JSON_stringify fuel val (opt_replace options)
         \<and> (effective_indent (opt_indent options') = [] \<and> opt_replace options' = opt_replace options
              \<longrightarrow> stringify fuel val options' = stringify fuel val options)"
  using assms by (simp add: stringify_def)

text \<open>
  With \<^verbatim>\<open>indent: 0\<close>, \<^verbatim>\<open>maxLineLength: 3\<close> and \<^verbatim>\<open>tables: false\<close>,
  \<^verbatim>\<open>[1, [null, true]]\<close> is rendered \<^verbatim>\<open>[1,[null,true]]\<close>.
\<close>

theorem empty_indent_is_JSON_stringify_witness:
  "stringify 3 (VArray [VInt 1, VArray [VNull, VBoolean True]])
     (no_options\<lparr>opt_indent := IndentNumber (Finite 0), opt_maxLineLength := Some 3, opt_tables := Some False\<rparr>)
   = Return (Some ''[1,[null,true]]'')"
proof -
  let ?o = "no_options\<lparr>opt_indent := IndentNumber (Finite 0), opt_maxLineLength := Some 3, opt_tables := Some False\<rparr>"
  let ?v = "VArray [VInt 1, VArray [VNull, VBoolean True]]"
  have h: "effective_indent (opt_indent ?o) = []"
    by (simp add: repeat_def)
  have e: "JSON_stringify 3 ?v (opt_replace ?o) = Return (Some ''[1,[null,true]]'')"
    by code_simp
  from empty_indent_is_JSON_stringify [OF h, of 3 ?v] e show ?thesis
    by simp
qed

subsection \<open>Configuration errors\<close>

text \<open>
  Claim C7, as amended. When the indent is not empty and one of \<^verbatim>\<open>replace\<close>,
  \<^verbatim>\<open>allowInline\<close>, \<^verbatim>\<open>allowTable\<close> is present and not a function, \<^verbatim>\<open>stringify\<close> throws
  the error that names the first such option, for every value and with no fuel at all: no
  call of \<^verbatim>\<open>processValue\<close> is made.
\<close>

theorem configuration_error_before_traversal:
  assumes "effective_indent (opt_indent options) \<noteq> []"
      and "not_a_function (opt_replace options) \<or> not_a_function (opt_allowInline options)
           \<or> not_a_function (opt_allowTable options)"
  shows "\<forall>fuel val. stringify fuel val options =
           Throw (must_be_a_function
                    (if not_a_function (opt_replace options) then ''replace''
                     else if not_a_function (opt_allowInline options) then ''allowInline''
                     else ''allowTable''))"
  using assms by (auto simp: stringify_def)

text \<open>
  \<^verbatim>\<open>stringify([1], { allowTable: 1 })\<close> throws \<^verbatim>\<open>'allowTable' must be a function.\<close>
\<close>

theorem configuration_error_before_traversal_witness:
  "stringify 7 (VArray [VInt 1]) (no_options\<lparr>opt_allowTable := Given (VInt 1)\<rparr>)
   = Throw (Error ([CHR 0x27] @ ''allowTable'' @ [CHR 0x27] @ '' must be a function.''))"
proof -
  let ?o = "no_options\<lparr>opt_allowTable := Given (VInt 1)\<rparr>"
  have h1: "effective_indent (opt_indent ?o) \<noteq> []"
    by (simp add: no_options_def)
  have h2: "not_a_function (opt_replace ?o) \<or> not_a_function (opt_allowInline ?o)
            \<or> not_a_function (opt_allowTable ?o)"
    by (simp add: no_options_def)
  from configuration_error_before_traversal [OF h1 h2] show ?thesis
    by (simp add: no_options_def must_be_a_function_def)
qed

text \<open>
  Claim C7 as stated fails: with \<^verbatim>\<open>indent: 0\<close> the function returns at line 158, before
  the checks of lines 161 to 169, so \<^verbatim>\<open>stringify(1, { indent: 0, replace: 42 })\<close>
  returns \<^verbatim>\<open>1\<close> and throws nothing.
\<close>

theorem configuration_error_skipped_counterexample:
  "not_a_function (opt_replace (no_options\<lparr>opt_indent := IndentNumber (Finite 0), opt_replace := Given (VInt 42)\<rparr>))
   \<and> stringify 3 (VInt 1) (no_options\<lparr>opt_indent := IndentNumber (Finite 0), opt_replace := Given (VInt 42)\<rparr>)
       = Return (Some ''1'')"
  by code_simp

subsection \<open>Scalars\<close>

text \<open>
  Claim C9, as amended. Without a replacer, \<^verbatim>\<open>processValue\<close> returns \<^verbatim>\<open>null\<close> for
  null, \<^verbatim>\<open>true\<close> or \<^verbatim>\<open>false\<close> for a boolean, and for a string and a number the text
  \<^verbatim>\<open>JSON.stringify\<close> gives it, with \<^verbatim>\<open>nested\<close> false, whatever the other arguments
  are; for a bigint it throws the TypeError of \<^verbatim>\<open>JSON.stringify\<close>. The text of a
  finite number is that of \<^verbatim>\<open>Number::toString\<close> (\<^verbatim>\<open>0\<close> for \<^verbatim>\<open>-0\<close>), and the text
  of \<^verbatim>\<open>NaN\<close> and of the infinities is \<^verbatim>\<open>null\<close>.
\<close>

theorem scalar_encoding:
  assumes "cfg_replaceFunc c = None"
  shows "processValue (Suc n) c key VNull depth parentObj keyLength allowTables = Return (Processed ''null'' False)
       \<and> processValue (Suc n) c key (VBoolean b) depth parentObj keyLength allowTables
           = Return (Processed (if b then ''true'' else ''false'') False)
       \<and> processValue (Suc n) c key (VString s) depth parentObj keyLength allowTables
           = Return (Processed (quote_string s) False)
       \<and> processValue (Suc n) c key (VNumber x) depth parentObj keyLength allowTables
           = Return (Processed (JSON_stringify_number x) False)
       \<and> JSON_stringify_number (Finite q) = Number_toString q
       \<and> JSON_stringify_number NegZero = ''0''
       \<and> JSON_stringify_number NaN = ''null''
       \<and> JSON_stringify_number PosInfinity = ''null''
       \<and> JSON_stringify_number NegInfinity = ''null''
       \<and> processValue (Suc n) c key (VBigInt i) depth parentObj keyLength allowTables = Throw TypeError
       \<and> JSON_stringify (Suc m) (VString s) Missing = Return (Some (quote_string s))
       \<and> JSON_stringify (Suc m) (VNumber x) Missing = Return (Some (JSON_stringify_number x))"
  using assms by (simp add: processValue_step_def JSON_stringify_def SerializeJSONProperty_step_def)

text \<open>
  With the default options, \<^verbatim>\<open>12.5\<close> is rendered \<^verbatim>\<open>12.5\<close> and \<^verbatim>\<open>1e21\<close> is rendered
  \<^verbatim>\<open>1e+21\<close>.
\<close>

theorem scalar_encoding_witness:
  "processValue 1 (closure_of no_options) [] (VNumber (Finite (25 / 2))) 0 (VObject [([], VNull)]) 0 True
     = Return (Processed ''12.5'' False)
   \<and> processValue 1 (closure_of no_options) [] (VInt (10 ^ 21)) 0 (VObject [([], VNull)]) 0 True
     = Return (Processed ''1e+21'' False)"
proof -
  have h: "cfg_replaceFunc (closure_of no_options) = None"
    by (simp add: closure_of_def no_options_def Let_def)
  have e: "Number_toString (25 / 2) = ''12.5''" "Number_toString (of_int (10 ^ 21)) = ''1e+21''"
    by code_simp+
  from scalar_encoding [OF h, of 0 "[]" 0 "VObject [([], VNull)]" 0 True _ _ "Finite (25 / 2)"]
       scalar_encoding [OF h, of 0 "[]" 0 "VObject [([], VNull)]" 0 True _ _ "Finite (of_int (10 ^ 21))"]
       e
  show ?thesis
    by simp
qed

text \<open>
  Claim C9 as stated fails for a bigint: \<^verbatim>\<open>stringify(1n)\<close> throws a TypeError.
\<close>

theorem bigint_counterexample:
  "stringify 3 (VBigInt 1) no_options = Throw TypeError"
  by code_simp

subsection \<open>The compact packer\<close>

text \<open>
  \<open>ceil_sqrt\<close> is \<^verbatim>\<open>Math.ceil(Math.sqrt(n))\<close>: the ceiling of the real square root.
\<close>

lemma ceil_sqrt_bounds:
  "n \<le> ceil_sqrt n * ceil_sqrt n \<and> (\<forall>k < ceil_sqrt n. k * k < n)"
proof -
  let ?P = "\<lambda>k. k * k < n"
  let ?tw = "takeWhile ?P [0..<n]"
  have len: "length ?tw \<le> n"
    using length_takeWhile_le [of ?P "[0..<n]"] by simp
  have upper: "n \<le> length ?tw * length ?tw"
  proof (cases "length ?tw < n")
    case True
    then have "\<not> ?P ([0..<n] ! length ?tw)"
      using nth_length_takeWhile [of ?P "[0..<n]"] by simp
    with True show ?thesis by simp
  next
    case False
    with len have "length ?tw = n" by simp
    then show ?thesis by (cases n) simp_all
  qed
  have lower: "k * k < n" if "k < length ?tw" for k
  proof -
    from that len have "?tw ! k = k"
      by (simp add: takeWhile_nth)
    moreover from that have "?tw ! k \<in> set ?tw"
      by simp
    ultimately show ?thesis
      using set_takeWhileD [of k ?P "[0..<n]"] by simp
  qed
  from upper lower show ?thesis
    by (simp add: ceil_sqrt_def)
qed

lemma ceil_sqrt_pos: "0 < n \<Longrightarrow> 0 < ceil_sqrt n"
  using ceil_sqrt_bounds [of n] by (cases "ceil_sqrt n") auto

lemma ceil_sqrt_eq: "int (ceil_sqrt n) = \<lceil>sqrt (real n)\<rceil>"
proof (cases "ceil_sqrt n")
  case 0
  with ceil_sqrt_bounds [of n] show ?thesis by simp
next
  case (Suc j)
  with ceil_sqrt_bounds [of n] have lo: "j * j < n" and hi: "n \<le> Suc j * Suc j"
    by auto
  from lo have "real j * real j < real n"
    by (metis of_nat_less_iff of_nat_mult)
  then have "real j < sqrt (real n)"
    by (simp add: real_less_rsqrt power2_eq_square)
  moreover from hi have "real n \<le> real (Suc j) * real (Suc j)"
    by (metis of_nat_le_iff of_nat_mult)
  then have "sqrt (real n) \<le> real (Suc j)"
    by (simp add: real_le_lsqrt power2_eq_square)
  ultimately have "\<lceil>sqrt (real n)\<rceil> = int (Suc j)"
    by (intro ceiling_unique) simp_all
  with Suc show ?thesis by simp
qed


lemma findMaxItemsWide_loop_result:
  assumes "findMaxItemsWide_loop ls m low high best bw = (b, w)"
      and "1 \<le> low" and "low \<le> high + 1" and "high \<le> H"
      and "(low = 1 \<and> best = 1 \<and> bw = None)
           \<or> (1 < low \<and> best = low - 1 \<and> totalWidth ls best \<le> m \<and> bw = Some (getColumnWidths ls (nat best)))"
      and "high = H \<or> \<not> totalWidth ls (high + 1) \<le> m"
  shows "(w = None \<and> b = 1 \<and> (H = 0 \<or> \<not> totalWidth ls 1 \<le> m))
         \<or> (w = Some (getColumnWidths ls (nat b)) \<and> 1 \<le> b \<and> b \<le> H \<and> totalWidth ls b \<le> m
              \<and> (b = H \<or> \<not> totalWidth ls (b + 1) \<le> m))"
  using assms
proof (induction ls m low high best bw rule: findMaxItemsWide_loop.induct)
  case (1 ls m low high best bw)
  show ?case
  proof (cases "low \<le> high")
    case False
    with "1.prems"(3) have eq: "low = high + 1" by simp
    from False "1.prems"(1) have res: "b = best" "w = bw"
      by (simp_all add: findMaxItemsWide_loop.simps)
    from "1.prems"(5) show ?thesis
    proof
      assume "low = 1 \<and> best = 1 \<and> bw = None"
      with eq res "1.prems"(6) show ?thesis by auto
    next
      assume "1 < low \<and> best = low - 1 \<and> totalWidth ls best \<le> m \<and> bw = Some (getColumnWidths ls (nat best))"
      with eq res "1.prems"(4,6) show ?thesis by auto
    qed
  next
    case True
    define mid where "mid = (low + high) div 2"
    from True have mid_bounds: "low \<le> mid" "mid \<le> high"
      by (simp_all add: mid_def)
    show ?thesis
    proof (cases "totalWidth ls mid \<le> m")
      case fits: True
      with True "1.prems"(1) have call:
        "findMaxItemsWide_loop ls m (mid + 1) high mid (Some (getColumnWidths ls (nat mid))) = (b, w)"
        by (simp add: findMaxItemsWide_loop.simps [of ls m low high] mid_def Let_def)
      show ?thesis
        by (rule "1.IH"(1) [OF True mid_def refl fits call])
           (use mid_bounds fits "1.prems"(2,4,6) in auto)
    next
      case nofit: False
      with True "1.prems"(1) have call:
        "findMaxItemsWide_loop ls m low (mid - 1) best bw = (b, w)"
        by (simp add: findMaxItemsWide_loop.simps [of ls m low high] mid_def Let_def)
      show ?thesis
        by (rule "1.IH"(2) [OF True mid_def refl nofit call])
           (use mid_bounds nofit "1.prems"(2,4,5) in auto)
    qed
  qed
qed


lemma fits_downward:
  assumes mono: "\<forall>k. 1 \<le> k \<and> k < H \<and> totalWidth ls (k + 1) \<le> m \<longrightarrow> totalWidth ls k \<le> m"
      and "totalWidth ls k \<le> m" and "1 \<le> j" and "j \<le> k" and "k \<le> H"
  shows "totalWidth ls j \<le> m"
proof -
  have "totalWidth ls (k - int d) \<le> m" if "int d \<le> k - j" for d
    using that
  proof (induction d)
    case 0
    with assms(2) show ?case by simp
  next
    case (Suc d)
    then have "totalWidth ls (k - int d) \<le> m" by simp
    moreover have "k - int d = (k - int (Suc d)) + 1" by simp
    moreover from Suc.prems assms(3,5) have "1 \<le> k - int (Suc d)" "k - int (Suc d) < H" by simp_all
    ultimately show ?case using mono by metis
  qed
  from this [of "nat (k - j)"] assms(4) show ?thesis by simp
qed

text \<open>
  Claim C4, as amended. For a non-empty array, \<^verbatim>\<open>findMaxItemsWide\<close> returns a column
  count \<open>c\<close> between 1 and \<^verbatim>\<open>Math.ceil(Math.sqrt(n))\<close> together with the column widths
  for \<open>c\<close> (for each column index \<open>j\<close> the maximum length at the positions \<open>j\<close>,
  \<open>j + c\<close>, ...; the row width is their sum plus \<open>2 (c - 1)\<close>). What the binary search
  guarantees: either the row width for \<open>c\<close> fits the budget and \<open>c\<close> is the upper bound or
  the width for \<open>c + 1\<close> does not fit; or \<open>c = 1\<close> and even one column does not fit. When
  fitting is monotone (if \<open>k + 1\<close> columns fit then \<open>k\<close> columns fit), no column count of
  the range that fits is larger than \<open>c\<close>.
\<close>

theorem findMaxItemsWide_binary_search:
  assumes "items \<noteq> []"
  shows "let c = int (fst (findMaxItemsWide items itemLengths maxLineLength));
             H = int (ceil_sqrt (length items))
         in 1 \<le> c \<and> c \<le> H
            \<and> snd (findMaxItemsWide items itemLengths maxLineLength) = getColumnWidths itemLengths (nat c)
            \<and> (totalWidth itemLengths c \<le> maxLineLength
                  \<and> (c = H \<or> \<not> totalWidth itemLengths (c + 1) \<le> maxLineLength)
                \<or> c = 1 \<and> \<not> totalWidth itemLengths 1 \<le> maxLineLength)
            \<and> ((\<forall>k. 1 \<le> k \<and> k < H \<and> totalWidth itemLengths (k + 1) \<le> maxLineLength
                       \<longrightarrow> totalWidth itemLengths k \<le> maxLineLength)
                 \<longrightarrow> (\<forall>k. 1 \<le> k \<and> k \<le> H \<and> totalWidth itemLengths k \<le> maxLineLength \<longrightarrow> k \<le> c))"
proof -
  define H where "H = int (ceil_sqrt (length items))"
  obtain b w where loop: "findMaxItemsWide_loop itemLengths maxLineLength 1 H 1 None = (b, w)"
    by (cases "findMaxItemsWide_loop itemLengths maxLineLength 1 H 1 None")
  from assms have Hpos: "1 \<le> H"
    using ceil_sqrt_pos [of "length items"] by (simp add: H_def)
  have inv: "(w = None \<and> b = 1 \<and> (H = 0 \<or> \<not> totalWidth itemLengths 1 \<le> maxLineLength))
         \<or> (w = Some (getColumnWidths itemLengths (nat b)) \<and> 1 \<le> b \<and> b \<le> H
              \<and> totalWidth itemLengths b \<le> maxLineLength
              \<and> (b = H \<or> \<not> totalWidth itemLengths (b + 1) \<le> maxLineLength))"
    by (rule findMaxItemsWide_loop_result [OF loop]) (use Hpos in simp_all)
  from inv Hpos have range: "1 \<le> b" "b \<le> H"
    by auto
  from loop have fst_eq: "int (fst (findMaxItemsWide items itemLengths maxLineLength)) = b"
    using range by (simp add: findMaxItemsWide_def H_def)
  from loop inv have snd_eq:
    "snd (findMaxItemsWide items itemLengths maxLineLength) = getColumnWidths itemLengths (nat b)"
    by (auto simp: findMaxItemsWide_def H_def)
  from inv Hpos have local:
    "totalWidth itemLengths b \<le> maxLineLength \<and> (b = H \<or> \<not> totalWidth itemLengths (b + 1) \<le> maxLineLength)
     \<or> b = 1 \<and> \<not> totalWidth itemLengths 1 \<le> maxLineLength"
    by auto
  have largest: "k \<le> b"
    if mono: "\<forall>k. 1 \<le> k \<and> k < H \<and> totalWidth itemLengths (k + 1) \<le> maxLineLength
                 \<longrightarrow> totalWidth itemLengths k \<le> maxLineLength"
      and k: "1 \<le> k" "k \<le> H" "totalWidth itemLengths k \<le> maxLineLength" for k
  proof (rule ccontr)
    assume "\<not> k \<le> b"
    then have less: "b + 1 \<le> k" by simp
    from fits_downward [OF mono k(3) _ less k(2)] range
    have next_fits: "totalWidth itemLengths (b + 1) \<le> maxLineLength" by simp
    from fits_downward [OF mono k(3) _ _ k(2), of 1] k(1)
    have one_fits: "totalWidth itemLengths 1 \<le> maxLineLength" by simp
    from local next_fits one_fits have "b = H" by auto
    with less k(2) show False by simp
  qed
  from range snd_eq local largest show ?thesis
    unfolding Let_def fst_eq H_def [symmetric] by blast
qed

text \<open>
  Ten items of length 2 and a budget of 10: the widths for 1 to 4 columns are 2, 6, 10 and
  14, fitting is monotone, and the packer chooses 3 columns.
\<close>

theorem findMaxItemsWide_binary_search_witness:
  "fst (findMaxItemsWide (replicate 10 ''ab'') (replicate 10 2) 10) = 3"
proof -
  let ?ls = "replicate 10 (2::nat)"
  have H: "int (ceil_sqrt (length (replicate 10 ''ab''))) = 4"
    by code_simp
  have w: "totalWidth ?ls 1 = 2" "totalWidth ?ls 2 = 6" "totalWidth ?ls 3 = 10" "totalWidth ?ls 4 = 14"
    by code_simp+
  have mono: "\<forall>k. 1 \<le> k \<and> k < 4 \<and> totalWidth ?ls (k + 1) \<le> 10 \<longrightarrow> totalWidth ?ls k \<le> 10"
  proof (intro allI impI)
    fix k :: int
    assume "1 \<le> k \<and> k < 4 \<and> totalWidth ?ls (k + 1) \<le> 10"
    then have "k = 1 \<or> k = 2 \<or> k = 3" by auto
    with w show "totalWidth ?ls k \<le> 10" by auto
  qed
  have ne: "replicate 10 ''ab'' \<noteq> []"
    by simp
  let ?c = "int (fst (findMaxItemsWide (replicate 10 ''ab'') ?ls 10))"
  from findMaxItemsWide_binary_search [OF ne, of ?ls 10]
  have range: "1 \<le> ?c" "?c \<le> 4"
    and local: "totalWidth ?ls ?c \<le> 10 \<and> (?c = 4 \<or> \<not> totalWidth ?ls (?c + 1) \<le> 10)
                \<or> ?c = 1 \<and> \<not> totalWidth ?ls 1 \<le> 10"
    and largest: "(\<forall>k. 1 \<le> k \<and> k < 4 \<and> totalWidth ?ls (k + 1) \<le> 10 \<longrightarrow> totalWidth ?ls k \<le> 10)
                  \<longrightarrow> (\<forall>k. 1 \<le> k \<and> k \<le> 4 \<and> totalWidth ?ls k \<le> 10 \<longrightarrow> k \<le> ?c)"
    unfolding Let_def H by blast+
  from largest mono have "\<forall>k. 1 \<le> k \<and> k \<le> 4 \<and> totalWidth ?ls k \<le> 10 \<longrightarrow> k \<le> ?c"
    by (rule mp)
  from spec [OF this, of 3] w(3) have "3 \<le> ?c" by simp
  moreover from local w have "?c \<noteq> 4" by auto
  ultimately have "?c = 3" using range by simp
  then show ?thesis by simp
qed

text \<open>
  Claim C4 as stated fails: fitting is not monotone in general. For the items
  \<^verbatim>\<open>1000, 1, 1, 1, 1000, 1, 1, 1, 1000, 1\<close> (which the packer accepts as roughly uniform)
  and a budget of 14 the row widths for 1 to 4 columns are 4, 7, 16 and 13. The search
  probes 2 (fits), then 3 (does not fit), and returns 2, although 4 is in the range and fits.
\<close>

theorem findMaxItemsWide_not_largest_counterexample:
  "roughly_uniform (map length packed_items)
   \<and> fst (findMaxItemsWide packed_items (map length packed_items) 14) = 2
   \<and> ceil_sqrt (length packed_items) = 4
   \<and> totalWidth (map length packed_items) 4 \<le> 14"
  by code_simp

subsection \<open>Where the layout engine fails\<close>

text \<open>
  Three calls with the default options that end in an exception or in \<^verbatim>\<open>undefined\<close>
  although the value has neither a bigint nor an \<^verbatim>\<open>undefined\<close> in it (they are table
  candidates, which claim C1 as amended leaves out):
  \<^item> \<^verbatim>\<open>stringify([{ a: [1,2,3,4,5,6,7], b: [1,2,3,4,5,6,7] }])\<close> throws a TypeError. The
    object is a table of 7 columns, more than \<^verbatim>\<open>maxArrayItems\<close>; line 251 leaves
    \<^verbatim>\<open>processValue\<close> by \<^verbatim>\<open>return null\<close> (the other exits of that block are
    \<^verbatim>\<open>break table\<close>), and line 229 reads \<^verbatim>\<open>processed.result\<close> of that \<^verbatim>\<open>null\<close>.
  \<^item> For the same object at the root the result is \<^verbatim>\<open>undefined\<close>, through the \<^verbatim>\<open>?.\<close>
    of line 517.
  \<^item> \<^verbatim>\<open>stringify([{ a: 1 }, { a: 1, k: { x: 1 } }, { a: 1, k: { x: 2 } }])\<close> throws a
    RangeError: the width of the sub-table column \<^verbatim>\<open>k\<close> is taken from its first row
    (line 393), which is the bare label of a row without \<^verbatim>\<open>k\<close>, and line 453 asks for a
    negative number of spaces.
\<close>

theorem layout_failure_throws:
  "stringify 5 (VArray [VObject [(''a'', seven), (''b'', seven)]]) no_options = Throw TypeError
   \<and> stringify 5 (VObject [(''a'', seven), (''b'', seven)]) no_options = Return None
   \<and> stringify 5
         (VArray [VObject [(''a'', VInt 1)],
                  VObject [(''a'', VInt 1), (''k'', VObject [(''x'', VInt 1)])],
                  VObject [(''a'', VInt 1), (''k'', VObject [(''x'', VInt 2)])]])
         no_options = Throw RangeError"
  by code_simp

text \<open>
  The sub-table of a column that some rows lack. For the object of the repository's test
  \<^verbatim>\<open>tables with missing properties\<close> and the default options the result is the text
  below: in the rows without \<^verbatim>\<open>rotation\<close> the label of the sub-table column is printed
  with no value (lines 390 to 392 put it before the empty row text that line 354 gave the
  missing row). That text is not JSON; the test expects those rows to be padded with
  blanks.
\<close>

lemma missing_properties_text:
  \<open>stringify 5 missing_properties no_options = Return (Some (text_of_lines
     [''{'',
      ''  "a": { "type": 35, "rotation": [  0, 130, 0 ] },'',
      ''  "b": { "type": 35 "rotation": ,               },'',
      ''  "c": { "type": 35 "rotation": ,               },'',
      ''  "d": { "type": 35, "rotation": [ 90,   0, 0 ] },'',
      ''  "e": { "type": 35 "rotation": ,               }'',
      ''}'']))\<close>
  by code_simp

text \<open>
  The comma after an item is not counted. With \<^verbatim>\<open>maxLineLength: 8\<close>,
  \<^verbatim>\<open>[[1, 2], [3, 4]]\<close> is rendered on four lines whose widths after the indentation are
  1, 9, 8 and 1: the inline form \<^verbatim>\<open>[ 1, 2 ]\<close> is accepted with 8 characters (line 475;
  as a table row, line 214), and the comma that \<^verbatim>\<open>join\<close> puts after it (line 496) is
  counted nowhere. The same holds with \<^verbatim>\<open>tables: false\<close>.
\<close>

lemma trailing_comma_not_counted:
  "stringify 5 (VArray [VArray [VInt 1, VInt 2], VArray [VInt 3, VInt 4]])
     (no_options\<lparr>opt_maxLineLength := Some 8\<rparr>)
     = Return (Some (text_of_lines [''['', ''  [ 1, 2 ],'', ''  [ 3, 4 ]'', '']'']))
   \<and> stringify 5 (VArray [VArray [VInt 1, VInt 2], VArray [VInt 3, VInt 4]])
       (no_options\<lparr>opt_maxLineLength := Some 8, opt_tables := Some False\<rparr>)
     = Return (Some (text_of_lines [''['', ''  [ 1, 2 ],'', ''  [ 3, 4 ]'', '']'']))
   \<and> line_widths (text_of_lines [''['', ''  [ 1, 2 ],'', ''  [ 3, 4 ]'', '']'']) = [1, 9, 8, 1]"
  by code_simp

text \<open>
  Claim C5 (the code does not do what the claim says). With the default options
  (\<^verbatim>\<open>maxArrayItems\<close> is 6):
  \<^item> for the object \<^verbatim>\<open>{ a: [1,2,3,4,5,6,7], b: [1,2,3,4,5,6,7] }\<close>, whose table would
    have 7 columns, \<^verbatim>\<open>processValue\<close> returns \<^verbatim>\<open>null\<close> (line 251) and not the per-item
    rendering;
  \<^item> the array \<^verbatim>\<open>[[1,2,3,4,5,6,100], [10,2,3,4,5,6,7]]\<close> is rendered as a table of 7
    aligned columns: the array branch (lines 206 to 221) compares the column count with
    no ceiling.
\<close>

theorem column_ceiling_not_enforced:
  "cfg_maxArrayItems (closure_of no_options) = 6
   \<and> processValue 5 (closure_of no_options) [] (VObject [(''a'', seven), (''b'', seven)]) 0
         (VObject [([], VObject [(''a'', seven), (''b'', seven)])]) 0 True
       = Return ProcessedNull
   \<and> stringify 5
         (VArray [VArray (map VInt [1, 2, 3, 4, 5, 6, 100]), VArray (map VInt [10, 2, 3, 4, 5, 6, 7])])
         no_options
       = Return (Some (text_of_lines
           [''['', ''  [  1, 2, 3, 4, 5, 6, 100 ],'', ''  [ 10, 2, 3, 4, 5, 6,   7 ]'', '']'']))"
  by code_simp

text \<open>
  Claim C8 (the code does not do what the claim says). For a value that is
  \<^verbatim>\<open>undefined\<close> or a function no branch of \<^verbatim>\<open>processValue\<close> is taken and the call
  returns \<^verbatim>\<open>undefined\<close>, not an object whose \<^verbatim>\<open>result\<close> is \<^verbatim>\<open>undefined\<close>. So
  \<^item> \<^verbatim>\<open>stringify([1, undefined])\<close> throws a TypeError at \<^verbatim>\<open>processed.result ?? 'null'\<close>
    (line 229) instead of rendering \<^verbatim>\<open>null\<close>;
  \<^item> with a replacer that turns the property \<^verbatim>\<open>a\<close> into \<^verbatim>\<open>undefined\<close>,
    \<^verbatim>\<open>stringify({ a: 1, b: 2 })\<close> throws a TypeError at \<^verbatim>\<open>processed.nested\<close> (line 278)
    instead of dropping the entry;
  \<^item> a property that is \<^verbatim>\<open>undefined\<close> or a function before replacement is dropped
    (line 244), and a root that is \<^verbatim>\<open>undefined\<close> gives \<^verbatim>\<open>undefined\<close> (line 517).
\<close>

theorem unrepresentable_children:
  \<open>stringify 5 (VArray [VInt 1, VUndefined]) no_options = Throw TypeError
   \<and> stringify 5 (VObject [(''a'', VInt 1), (''b'', VInt 2)])
         (no_options\<lparr>opt_replace := GivenFunction (\<lambda>this k v. if k = ''a'' then VUndefined else v)\<rparr>)
       = Throw TypeError
   \<and> stringify 5 (VObject [(''a'', VUndefined), (''b'', VInt 1), (''c'', VFunction VNull)]) no_options
       = Return (Some ''{ "b": 1 }'')
   \<and> stringify 5 VUndefined no_options = Return None\<close>
  by code_simp

subsection \<open>Values that stay out of the table paths are always rendered\<close>

text \<open>
  The packer never asks for a negative number of spaces: each item is at most as wide as
  its column.
\<close>

lemma foldl_max_ge: "a \<le> foldl max a (xs :: nat list)"
  by (induction xs arbitrary: a) (auto intro: order_trans [OF max.cobounded1])

lemma foldl_max_mem: "x \<in> set xs \<Longrightarrow> x \<le> foldl max a (xs :: nat list)"
proof (induction xs arbitrary: a)
  case Nil
  then show ?case by simp
next
  case (Cons y ys)
  show ?case
  proof (cases "x = y")
    case True
    have "y \<le> max a y" by simp
    also have "\<dots> \<le> foldl max (max a y) ys" by (rule foldl_max_ge)
    finally show ?thesis using True by simp
  next
    case False
    with Cons show ?thesis by simp
  qed
qed

lemma getColumnWidths_covers:
  assumes "0 < w" and "p < length ls"
  shows "p mod w < length (getColumnWidths ls w) \<and> ls ! p \<le> getColumnWidths ls w ! (p mod w)"
proof -
  from assms have len: "p mod w < min w (length ls)"
    by (metis min_less_iff_conj mod_less_divisor mod_less_eq_dividend order_le_less_trans)
  have "ls ! p \<in> set (map (\<lambda>i. ls ! i) (filter (\<lambda>i. i mod w = p mod w) [0..<length ls]))"
    using assms(2) by auto
  then have "ls ! p \<le> Math_max (map (\<lambda>i. ls ! i) (filter (\<lambda>i. i mod w = p mod w) [0..<length ls]))"
    unfolding Math_max_def by (rule foldl_max_mem)
  with len assms(1) show ?thesis
    by (simp add: getColumnWidths_def)
qed







lemma findMaxItemsWide_facts:
  "0 < fst (findMaxItemsWide items ls m)
   \<and> snd (findMaxItemsWide items ls m) = getColumnWidths ls (fst (findMaxItemsWide items ls m))"
proof -
  define H where "H = int (ceil_sqrt (length items))"
  obtain b w where loop: "findMaxItemsWide_loop ls m 1 H 1 None = (b, w)"
    by (cases "findMaxItemsWide_loop ls m 1 H 1 None")
  have "(w = None \<and> b = 1 \<and> (H = 0 \<or> \<not> totalWidth ls 1 \<le> m))
         \<or> (w = Some (getColumnWidths ls (nat b)) \<and> 1 \<le> b \<and> b \<le> H \<and> totalWidth ls b \<le> m
              \<and> (b = H \<or> \<not> totalWidth ls (b + 1) \<le> m))"
    by (rule findMaxItemsWide_loop_result [OF loop]) (simp_all add: H_def)
  with loop show ?thesis
    by (auto simp: findMaxItemsWide_def H_def)
qed
















subsection \<open>The line budget\<close>

text \<open>
  A text made of lines: how \<open>text_of_lines\<close> composes, and which texts have no line
  break.
\<close>

lemma text_of_lines_single [simp]: "text_of_lines [l] = l"
  by (simp add: text_of_lines_def)

lemma text_of_lines_Cons: "ls \<noteq> [] \<Longrightarrow> text_of_lines (l # ls) = l @ [newline] @ text_of_lines ls"
  by (cases ls) (simp_all add: text_of_lines_def)

lemma text_of_lines_append:
  "as \<noteq> [] \<Longrightarrow> bs \<noteq> [] \<Longrightarrow> text_of_lines (as @ bs) = text_of_lines as @ [newline] @ text_of_lines bs"
proof (induction as rule: list_nonempty_induct)
  case (single x)
  then show ?case by (simp add: text_of_lines_Cons)
next
  case (cons x xs)
  then show ?case by (simp add: text_of_lines_Cons)
qed

lemma text_of_lines_prefix: "ls \<noteq> [] \<Longrightarrow> a @ text_of_lines ls = text_of_lines ((a @ hd ls) # tl ls)"
  by (cases ls; cases "tl ls") (simp_all add: text_of_lines_def)

lemma text_of_lines_suffix: "ls \<noteq> [] \<Longrightarrow> text_of_lines ls @ a = text_of_lines (butlast ls @ [last ls @ a])"
proof (induction ls rule: list_nonempty_induct)
  case (single x)
  then show ?case by simp
next
  case (cons x xs)
  then show ?case by (simp add: text_of_lines_Cons)
qed

lemma includes_newline_append [simp]:
  "includes_newline (a @ b) = (includes_newline a \<or> includes_newline b)"
  by (auto simp: includes_newline_def)

lemma includes_newline_repeat_spaces: "\<not> includes_newline (replicate n CHR '' '')"
  by (simp add: includes_newline_def newline_def)

lemma includes_newline_set: "includes_newline s = (newline \<in> set s)"
  by (simp add: includes_newline_def)

lemma no_nl_escape_char: "newline \<notin> set (escape_char ch)"
proof -
  have hex: "\<And>d. d < 16 \<Longrightarrow> hex_digit d \<noteq> newline"
  proof -
    fix d :: nat assume "d < 16"
    then have "hex_digit d \<in> set ''0123456789abcdef''"
      unfolding hex_digit_def by (intro nth_mem) simp
    then show "hex_digit d \<noteq> newline" by (auto simp: newline_def)
  qed
  have a: "(of_char ch :: nat) < 32 \<Longrightarrow> (of_char ch :: nat) div 16 < 16" by simp
  have b: "(of_char ch :: nat) mod 16 < 16" by simp
  show ?thesis
    using hex [OF a] hex [OF b]
    by (auto simp: escape_char_def newline_def dquote_def backslash_def)
qed

lemma no_nl_quote_string: "\<not> includes_newline (quote_string s)"
  using no_nl_escape_char
  by (auto simp: includes_newline_set quote_string_def newline_def dquote_def)

lemma no_nl_String_of_nat: "newline \<notin> set (String_of_nat n)"
proof (induction n rule: String_of_nat.induct)
  case (1 n)
  have digit: "\<And>d. d < 10 \<Longrightarrow> ''0123456789'' ! d \<noteq> newline"
  proof -
    fix d :: nat assume "d < 10"
    then have "''0123456789'' ! d \<in> set ''0123456789''" by (intro nth_mem) simp
    then show "''0123456789'' ! d \<noteq> newline" by (auto simp: newline_def)
  qed
  show ?case
  proof (cases "n < 10")
    case True
    then show ?thesis using digit [of n] by (subst String_of_nat.simps) simp
  next
    case False
    have "n mod 10 < 10" by simp
    from digit [OF this] 1 False show ?thesis by (subst String_of_nat.simps) simp
  qed
qed

lemma decimal_digits_set: "set (decimal_digits i) \<subseteq> set ''0123456789''"
proof (induction i rule: decimal_digits.induct)
  case (1 i)
  have digit: "''0123456789'' ! n \<in> set ''0123456789''" if "n < 10" for n
    using that nth_mem [of n "''0123456789''"] by simp
  show ?case
  proof (cases "i < 10")
    case True
    then have "nat i < 10" by simp
    from digit [OF this] True show ?thesis by (subst decimal_digits.simps) simp
  next
    case False
    have "nat (i mod 10) < 10" by simp
    from digit [OF this] 1 False show ?thesis by (subst decimal_digits.simps) simp
  qed
qed

lemma no_nl_significand: "newline \<notin> set (significand x n)"
proof -
  have "set (significand x n) \<subseteq> set (decimal_digits (seventeen_digits x n))"
    using set_dropWhileD [of _ "\<lambda>ch. ch = CHR ''0''" "rev (decimal_digits (seventeen_digits x n))"]
    by (auto simp: significand_def)
  with decimal_digits_set [of "seventeen_digits x n"] show ?thesis
    by (auto simp: newline_def)
qed

lemma no_nl_positive_Number_toString: "newline \<notin> set (positive_Number_toString x)"
proof -
  have a: "newline \<notin> set (take m (significand x n))" for m n
    using no_nl_significand [of x n] by (auto dest: in_set_takeD)
  have b: "newline \<notin> set (drop m (significand x n))" for m n
    using no_nl_significand [of x n] by (auto dest: in_set_dropD)
  have c: "newline \<noteq> CHR ''0''" "newline \<noteq> CHR ''.''" "newline \<noteq> CHR ''e''"
    "newline \<noteq> CHR ''-''" "newline \<noteq> CHR ''+''"
    by (simp_all add: newline_def)
  show ?thesis
    unfolding positive_Number_toString_def Let_def
    using a b c no_nl_significand [of x] no_nl_String_of_nat
    by (simp del: take_Suc_Cons drop_Suc_Cons)
qed

lemma no_nl_JSON_stringify_number: "\<not> includes_newline (JSON_stringify_number n)"
  using no_nl_positive_Number_toString
  by (cases n) (simp_all add: includes_newline_set Number_toString_def newline_def)

lemma no_nl_scalar_text: "scalar_text t \<Longrightarrow> \<not> includes_newline t"
  unfolding scalar_text_def
  using no_nl_quote_string no_nl_JSON_stringify_number
  by (auto simp: includes_newline_set newline_def)

lemma no_nl_repeat: "\<not> includes_newline ind \<Longrightarrow> \<not> includes_newline (repeat ind k)"
  by (induction k) (auto simp: repeat_def includes_newline_set)

lemma nl_text_of_lines: "includes_newline (text_of_lines (a # b # ls))"
  by (simp add: text_of_lines_def includes_newline_set)

lemma nl_text_of_lines_snoc: "includes_newline (text_of_lines (a # ls @ [b]))"
  by (cases ls) (simp_all add: text_of_lines_def includes_newline_set)

lemma item_ok_single: "item_ok c it \<Longrightarrow> \<not> includes_newline it \<Longrightarrow> payload_ok c it"
  unfolding item_ok_def using nl_text_of_lines_snoc by auto

lemma single_item_ok: "payload_ok c it \<Longrightarrow> \<not> includes_newline it \<Longrightarrow> item_ok c it"
  unfolding item_ok_def by (intro exI [of _ "[it]"]) simp

lemma no_nl_key_label: "key_label l \<Longrightarrow> \<not> includes_newline l"
  unfolding key_label_def using no_nl_quote_string
  by (auto simp: includes_newline_set newline_def)

lemma value_item:
  assumes v: "value_ok c (length l) s" and l: "key_label l"
  shows "item_ok c (l @ s)"
proof -
  from v obtain ls where s: "s = text_of_lines ls" and nl: "list_all (\<lambda>l. \<not> includes_newline l) ls"
    and shape: "(\<exists>x. ls = [x] \<and> (scalar_text x \<or> x = ''[]'' \<or> x = ''{}''
                            \<or> int (length l) + int (length x) \<le> cfg_maxLineLength c))
         \<or> (\<exists>b mid cl. ls = b # mid @ [cl] \<and> (b = ''['' \<or> b = ''{'') \<and> list_all (line_ok c) mid
                \<and> closing_line c cl)"
    unfolding value_ok_def by blast
  note lnl = no_nl_key_label [OF l]
  from shape show ?thesis
  proof
    assume "\<exists>x. ls = [x] \<and> (scalar_text x \<or> x = ''[]'' \<or> x = ''{}''
                            \<or> int (length l) + int (length x) \<le> cfg_maxLineLength c)"
    then obtain x where ls: "ls = [x]" and x: "scalar_text x \<or> x = ''[]'' \<or> x = ''{}''
                            \<or> int (length l) + int (length x) \<le> cfg_maxLineLength c" by blast
    have "payload_ok c (l @ x)"
      using x l unfolding payload_ok_def leaf_payload_def by auto
    moreover have "\<not> includes_newline (l @ x)" using nl ls lnl by simp
    ultimately show ?thesis using s ls by (simp add: single_item_ok)
  next
    assume "\<exists>b mid cl. ls = b # mid @ [cl] \<and> (b = ''['' \<or> b = ''{'') \<and> list_all (line_ok c) mid
                \<and> closing_line c cl"
    then obtain b mid cl where ls: "ls = b # mid @ [cl]" and b: "b = ''['' \<or> b = ''{''"
      and mid: "list_all (line_ok c) mid" and cl: "closing_line c cl" by blast
    have "l @ s = text_of_lines ((l @ b) # mid @ [cl])"
      using s ls text_of_lines_prefix [of ls l] by simp
    moreover have "payload_ok c (l @ b)"
      using b l unfolding payload_ok_def leaf_payload_def by auto
    moreover have "list_all (\<lambda>l. \<not> includes_newline l) ((l @ b) # mid @ [cl])"
      using nl ls lnl by simp
    ultimately show ?thesis using mid cl unfolding item_ok_def by blast
  qed
qed

lemma text_of_lines_snoc:
  "text_of_lines (a # mid @ [b]) = a @ [newline] @ text_of_lines (mid @ [b])"
  by (simp add: text_of_lines_Cons)

lemma text_of_lines_snoc_suffix:
  "text_of_lines (mid @ [b]) @ t = text_of_lines (mid @ [b @ t])"
  using text_of_lines_suffix [of "mid @ [b]" t] by simp

lemma placed_item:
  assumes it: "item_ok c it" and ind: "\<not> includes_newline (cfg_indent c)"
      and t: "t = [] \<or> t = '',''"
  shows "\<exists>ls. repeat (cfg_indent c) k @ it @ t = text_of_lines ls \<and> lines_ok c ls"
proof -
  let ?pre = "repeat (cfg_indent c) k"
  have pre: "\<not> includes_newline ?pre" by (rule no_nl_repeat [OF ind])
  have tnl: "\<not> includes_newline t" using t by (auto simp: includes_newline_set newline_def)
  from it obtain ls where s: "it = text_of_lines ls" and nl: "list_all (\<lambda>l. \<not> includes_newline l) ls"
    and shape: "(\<exists>p. ls = [p] \<and> payload_ok c p)
         \<or> (\<exists>p mid cl. ls = p # mid @ [cl] \<and> payload_ok c p \<and> list_all (line_ok c) mid \<and> closing_line c cl)"
    unfolding item_ok_def by blast
  from shape show ?thesis
  proof
    assume "\<exists>p. ls = [p] \<and> payload_ok c p"
    then obtain p where ls: "ls = [p]" and p: "payload_ok c p" by blast
    have "line_ok c (?pre @ p @ t)" unfolding line_ok_def using p t by blast
    moreover have "\<not> includes_newline (?pre @ p @ t)" using pre tnl nl ls by simp
    ultimately have "lines_ok c [?pre @ p @ t]" unfolding lines_ok_def by simp
    moreover have "?pre @ it @ t = text_of_lines [?pre @ p @ t]" using s ls by simp
    ultimately show ?thesis by blast
  next
    assume "\<exists>p mid cl. ls = p # mid @ [cl] \<and> payload_ok c p \<and> list_all (line_ok c) mid \<and> closing_line c cl"
    then obtain p mid cl where ls: "ls = p # mid @ [cl]" and p: "payload_ok c p"
      and mid: "list_all (line_ok c) mid" and cl: "closing_line c cl" by blast
    from cl obtain k' b where clk: "cl = repeat (cfg_indent c) k' @ b" and b: "closing_bracket b"
      unfolding closing_line_def by blast
    have first: "line_ok c (?pre @ p)"
      unfolding line_ok_def using p by (intro exI [of _ k] exI [of _ p] exI [of _ "[]"]) simp
    have lst: "line_ok c (cl @ t)"
      unfolding line_ok_def using b t clk
      by (intro exI [of _ k'] exI [of _ b] exI [of _ t]) (simp add: payload_ok_def)
    have whole: "?pre @ it @ t = text_of_lines ((?pre @ p) # mid @ [cl @ t])"
      using s ls by (simp add: text_of_lines_snoc text_of_lines_snoc_suffix)
    have "lines_ok c ((?pre @ p) # mid @ [cl @ t])"
      unfolding lines_ok_def using first lst mid nl ls pre tnl by simp
    with whole show ?thesis by blast
  qed
qed

lemma lines_ok_append: "lines_ok c as \<Longrightarrow> lines_ok c bs \<Longrightarrow> lines_ok c (as @ bs)"
  by (simp add: lines_ok_def)

lemma body_lines:
  assumes ind: "\<not> includes_newline (cfg_indent c)"
  shows "items \<noteq> [] \<Longrightarrow> list_all (item_ok c) items \<Longrightarrow>
         \<exists>ls. repeat (cfg_indent c) k @ join ('','' @ [newline] @ repeat (cfg_indent c) k) items
                = text_of_lines ls \<and> lines_ok c ls"
proof (induction items rule: list_nonempty_induct)
  case (single x)
  then have "item_ok c x" by simp
  from placed_item [OF this ind, of "[]" k] show ?case by simp
next
  case (cons x xs)
  from cons.prems have x: "item_ok c x" and xs: "list_all (item_ok c) xs" by simp_all
  from placed_item [OF x ind, of "'',''" k]
  obtain as where as: "repeat (cfg_indent c) k @ x @ '','' = text_of_lines as" and aok: "lines_ok c as"
    by auto
  from cons.IH [OF xs]
  obtain bs where bs: "repeat (cfg_indent c) k @ join ('','' @ [newline] @ repeat (cfg_indent c) k) xs
                = text_of_lines bs" and bok: "lines_ok c bs" by blast
  from cons.hyps obtain y ys where xs_eq: "xs = y # ys" by (cases xs) auto
  have "repeat (cfg_indent c) k @ join ('','' @ [newline] @ repeat (cfg_indent c) k) (x # xs)
        = (repeat (cfg_indent c) k @ x @ '','') @ [newline]
          @ (repeat (cfg_indent c) k @ join ('','' @ [newline] @ repeat (cfg_indent c) k) xs)"
    by (simp add: xs_eq)
  also have "\<dots> = text_of_lines as @ [newline] @ text_of_lines bs"
    by (simp only: as bs)
  also have "\<dots> = text_of_lines (as @ bs)"
    using aok bok by (simp add: text_of_lines_append lines_ok_def)
  finally show ?case using lines_ok_append [OF aok bok] by blast
qed

lemma one_per_line_ok:
  assumes ind: "\<not> includes_newline (cfg_indent c)"
      and items: "items \<noteq> []" "list_all (item_ok c) items"
      and br: "(opening = ''['' \<and> closing = '']'') \<or> (opening = ''{'' \<and> closing = ''}'')"
  shows "value_ok c keyLength (one_per_line opening closing (cfg_indent c) depth items)"
proof -
  from body_lines [OF ind items, of "depth + 1"]
  obtain ls where body: "repeat (cfg_indent c) (depth + 1)
        @ join ('','' @ [newline] @ repeat (cfg_indent c) (depth + 1)) items = text_of_lines ls"
    and ok: "lines_ok c ls" by blast
  let ?cl = "repeat (cfg_indent c) depth @ closing"
  have cl: "closing_line c ?cl"
    unfolding closing_line_def closing_bracket_def using br by blast
  have open_nl: "\<not> includes_newline opening" and close_nl: "\<not> includes_newline ?cl"
    using br no_nl_repeat [OF ind, of depth] by (auto simp: includes_newline_set newline_def)
  have "one_per_line opening closing (cfg_indent c) depth items
        = opening @ [newline] @ text_of_lines ls @ [newline] @ ?cl"
    unfolding one_per_line_def Let_def using body by simp
  also have "\<dots> = text_of_lines (opening # ls @ [?cl])"
    using ok by (simp add: text_of_lines_Cons text_of_lines_append lines_ok_def)
  finally have whole: "one_per_line opening closing (cfg_indent c) depth items
        = text_of_lines (opening # ls @ [?cl])" .
  have "list_all (\<lambda>l. \<not> includes_newline l) (opening # ls @ [?cl])"
    using ok open_nl close_nl by (simp add: lines_ok_def)
  moreover have "opening = ''['' \<or> opening = ''{''" using br by blast
  moreover have "list_all (line_ok c) ls" using ok by (simp add: lines_ok_def)
  ultimately show ?thesis
    unfolding value_ok_def using whole cl by blast
qed

text \<open>What \<^verbatim>\<open>joinColumns\<close> returns is as long as the column widths say.\<close>

lemma and_then_Return:
  "and_then m f = Return y \<Longrightarrow> \<exists>x. m = Return x \<and> f x = Return y"
  by (cases m) simp_all

lemma in_order_list_all2:
  "in_order ms = Return ys \<Longrightarrow> list_all2 (\<lambda>m y. m = Return y) ms ys"
proof (induction ms arbitrary: ys)
  case Nil
  then show ?case by simp
next
  case (Cons m ms)
  show ?case
  proof (cases m)
    case (Return x)
    with Cons.prems obtain xs where xs: "in_order ms = Return xs" and ys: "ys = x # xs"
      by (auto dest!: and_then_Return)
    from Cons.IH [OF xs] Return ys show ?thesis by simp
  qed (use Cons.prems in simp_all)
qed

lemma in_order_map_nth:
  assumes "in_order (map f xs) = Return ys"
  shows "length ys = length xs \<and> (\<forall>i < length xs. f (xs ! i) = Return (ys ! i))"
  using in_order_list_all2 [OF assms]
  by (auto simp: list_all2_conv_all_nth)

lemma foldl_add_sum_list: "foldl (+) a xs = a + sum_list (xs :: nat list)"
  by (induction xs arbitrary: a) simp_all

lemma sum_ns_sum_list: "sum_ns ws = sum_list ws"
  by (simp add: sum_ns_def foldl_add_sum_list)

lemma sum_list_take_le: "sum_list (take k ws) \<le> sum_list (ws :: nat list)"
proof -
  have "sum_list ws = sum_list (take k ws) + sum_list (drop k ws)"
    by (metis append_take_drop_id sum_list_append)
  then show ?thesis by simp
qed

lemma joinColumns_prefix:
  assumes cover: "\<forall>p < length items. p < length ws \<and> length (items ! p) \<le> ws ! p"
      and nonl: "list_all (\<lambda>l. \<not> includes_newline l) items"
  shows "m < length items \<Longrightarrow>
         \<exists>r. fold (\<lambda>i line. and_then line (\<lambda>l.
                 and_then (spaces (column_gap ws items i)) (\<lambda>pad.
                   Return (l @ '','' @ pad @ items ! i))))
               [1..<Suc m] (Return (items ! 0)) = Return r
             \<and> length r = sum_list (take m ws) + 2 * m + length (items ! m)
             \<and> \<not> includes_newline r"
proof (induction m)
  case 0
  then have "\<not> includes_newline (items ! 0)"
    using nonl by (simp add: list_all_length)
  then show ?case by simp
next
  case (Suc m)
  let ?step = "\<lambda>i line. and_then line (\<lambda>l.
                 and_then (spaces (column_gap ws items i)) (\<lambda>pad.
                   Return (l @ '','' @ pad @ items ! i)))"
  from Suc obtain r where r: "fold ?step [1..<Suc m] (Return (items ! 0)) = Return r"
    and len: "length r = sum_list (take m ws) + 2 * m + length (items ! m)"
    and rnl: "\<not> includes_newline r" by auto
  from Suc.prems cover have m: "m < length ws" "length (items ! m) \<le> ws ! m" by auto
  then have gap: "column_gap ws items (Suc m) = Some (int (ws ! m) - int (length (items ! m)) + 1)"
    by (simp add: column_gap_def)
  let ?pad = "replicate (nat (int (ws ! m) - int (length (items ! m)) + 1)) CHR '' ''"
  have pad: "spaces (column_gap ws items (Suc m)) = Return ?pad"
    using gap m by simp
  have split: "[1..<Suc (Suc m)] = [1..<Suc m] @ [Suc m]" by simp
  have "fold ?step ([1..<Suc m] @ [Suc m]) (Return (items ! 0))
        = ?step (Suc m) (fold ?step [1..<Suc m] (Return (items ! 0)))"
    by (simp only: fold_append fold.simps o_apply id_apply)
  also have "\<dots> = ?step (Suc m) (Return r)" by (simp only: r)
  also have "\<dots> = Return (r @ '','' @ ?pad @ items ! Suc m)" by (simp add: pad)
  finally have res: "fold ?step [1..<Suc (Suc m)] (Return (items ! 0))
        = Return (r @ '','' @ ?pad @ items ! Suc m)"
    by (simp only: split)
  have "length (r @ '','' @ ?pad @ items ! Suc m)
        = sum_list (take (Suc m) ws) + 2 * Suc m + length (items ! Suc m)"
    using len m by (simp add: take_Suc_conv_app_nth)
  moreover have "\<not> includes_newline (items ! Suc m)"
    using nonl Suc.prems by (simp add: list_all_length)
  then have "\<not> includes_newline (r @ '','' @ ?pad @ items ! Suc m)"
    using rnl by (auto simp: includes_newline_set newline_def)
  ultimately show ?case using res by blast
qed

lemma joinColumns_length:
  assumes ne: "items \<noteq> []"
      and cover: "\<forall>p < length items. p < length ws \<and> length (items ! p) \<le> ws ! p"
      and nonl: "list_all (\<lambda>l. \<not> includes_newline l) items"
  shows "\<exists>r. joinColumns items ws = Return r
             \<and> length r \<le> sum_list ws + 2 * (length items - 1)
             \<and> \<not> includes_newline r"
proof -
  from ne obtain x xs where items: "items = x # xs" by (cases items) auto
  let ?m = "length items - 1"
  have m: "?m < length items" using ne by simp
  from joinColumns_prefix [OF cover nonl m]
  obtain r where r: "fold (\<lambda>i line. and_then line (\<lambda>l.
                 and_then (spaces (column_gap ws items i)) (\<lambda>pad.
                   Return (l @ '','' @ pad @ items ! i))))
               [1..<Suc ?m] (Return (items ! 0)) = Return r"
    and len: "length r = sum_list (take ?m ws) + 2 * ?m + length (items ! ?m)"
    and rnl: "\<not> includes_newline r" by blast
  have "Suc ?m = length items" using ne by simp
  moreover have "items ! 0 = (case items of [] \<Rightarrow> [] | x # xs \<Rightarrow> x)" using items by simp
  ultimately have jr: "joinColumns items ws = Return r"
    using r unfolding joinColumns_def by simp
  from cover m have last: "?m < length ws" "length (items ! ?m) \<le> ws ! ?m" by auto
  have "sum_list (take ?m ws) + ws ! ?m = sum_list (take (Suc ?m) ws)"
    using last by (simp add: take_Suc_conv_app_nth)
  also have "\<dots> \<le> sum_list ws" by (rule sum_list_take_le)
  finally have "sum_list (take ?m ws) + length (items ! ?m) \<le> sum_list ws"
    using last by linarith
  with len have "length r \<le> sum_list ws + 2 * ?m" by linarith
  with jr rnl show ?thesis by blast
qed

lemma joinColumns_single: "joinColumns [x] ws = Return x"
  by (simp add: joinColumns_def)

lemma findMaxItemsWide_fits:
  "fst (findMaxItemsWide items ls m) = 1
   \<or> totalWidth ls (int (fst (findMaxItemsWide items ls m))) \<le> m"
proof -
  define H where "H = int (ceil_sqrt (length items))"
  obtain b w where loop: "findMaxItemsWide_loop ls m 1 H 1 None = (b, w)"
    by (cases "findMaxItemsWide_loop ls m 1 H 1 None")
  have "(w = None \<and> b = 1 \<and> (H = 0 \<or> \<not> totalWidth ls 1 \<le> m))
         \<or> (w = Some (getColumnWidths ls (nat b)) \<and> 1 \<le> b \<and> b \<le> H \<and> totalWidth ls b \<le> m
              \<and> (b = H \<or> \<not> totalWidth ls (b + 1) \<le> m))"
    by (rule findMaxItemsWide_loop_result [OF loop]) (simp_all add: H_def)
  with loop show ?thesis
    by (auto simp: findMaxItemsWide_def H_def)
qed

lemma row_start_in_range:
  assumes "0 < w" and "0 < n" and "i < (n + w - 1) div w"
  shows "i * w < (n :: nat)"
proof -
  from assms(3) have "Suc i \<le> (n + w - 1) div w" by simp
  then have "Suc i * w \<le> n + w - 1"
    using assms(1) by (simp add: less_eq_div_iff_mult_less_eq)
  then show ?thesis using assms(1,2) by simp
qed

text \<open>
  \<^verbatim>\<open>formatObject\<close> and \<^verbatim>\<open>formatArray\<close> return texts that are \<open>value_ok\<close> when their
  items are \<open>item_ok\<close>: the inline form is checked against the budget with the label, a
  packed row is within the budget or holds a single item, and the one-item-per-line form
  puts every item on lines of its own.
\<close>

lemma packed_rows_ok:
  assumes ne: "items \<noteq> []"
      and items_ok: "list_all (item_ok c) items"
      and guard: "list_all (\<lambda>item. \<not> includes_newline item \<and> \<not> opens_bracket item) items"
      and fm: "findMaxItemsWide items (map length items) (cfg_maxLineLength c) = (w, widths)"
      and rows: "in_order (map (\<lambda>i. joinColumns (take w (drop (i * w) items)) widths)
                   [0..<(length items + w - 1) div w]) = Return rows"
  shows "rows \<noteq> [] \<and> list_all (item_ok c) rows"
proof -
  let ?n = "length items"
  let ?R = "(?n + w - 1) div w"
  from findMaxItemsWide_facts [of items "map length items" "cfg_maxLineLength c"] fm
  have pos: "0 < w" and widths: "widths = getColumnWidths (map length items) w" by simp_all
  from findMaxItemsWide_fits [of items "map length items" "cfg_maxLineLength c"] fm
  have fits: "w = 1 \<or> totalWidth (map length items) (int w) \<le> cfg_maxLineLength c" by simp
  have n: "0 < ?n" using ne by simp
  from in_order_map_nth [OF rows]
  have len: "length rows = ?R"
    and each: "\<And>i. i < ?R \<Longrightarrow> joinColumns (take w (drop (i * w) items)) widths = Return (rows ! i)"
    by simp_all
  have "w \<le> ?n + w - 1" using n by linarith
  then have "1 \<le> ?R" using pos by (simp add: less_eq_div_iff_mult_less_eq)
  with len have nonempty: "rows \<noteq> []" by auto
  have "item_ok c (rows ! i)" if i: "i < ?R" for i
  proof -
    let ?chunk = "take w (drop (i * w) items)"
    from row_start_in_range [OF pos n i] have start: "i * w < ?n" .
    then have cne: "?chunk \<noteq> []" using pos by simp
    have clen: "length ?chunk \<le> w" by simp
    have cnl: "list_all (\<lambda>l. \<not> includes_newline l) ?chunk"
      using guard by (auto simp: list_all_iff dest: in_set_takeD in_set_dropD)
    show ?thesis
    proof (cases "w = 1")
      case True
      have "drop i items = items ! i # drop (Suc i) items"
        using start True by (simp add: Cons_nth_drop_Suc)
      then have "?chunk = [items ! i]"
        using True by simp
      with each [OF i] have "rows ! i = items ! i" by (simp add: joinColumns_single)
      moreover have "item_ok c (items ! i)"
        using items_ok start True by (simp add: list_all_length)
      ultimately show ?thesis by simp
    next
      case False
      with fits have fit: "totalWidth (map length items) (int w) \<le> cfg_maxLineLength c" by simp
      have cover: "\<forall>p < length ?chunk. p < length widths \<and> length (?chunk ! p) \<le> widths ! p"
      proof (intro allI impI)
        fix p assume p: "p < length ?chunk"
        then have pw: "p < w" and ip: "i * w + p < ?n" by auto
        then have q: "i * w + p < length (map length items)" by simp
        have "(i * w + p) mod w = p" using pw by simp
        with getColumnWidths_covers [OF pos q]
        have "p < length widths" "map length items ! (i * w + p) \<le> widths ! p"
          unfolding widths by simp_all
        moreover have "?chunk ! p = items ! (i * w + p)" using p ip by simp
        ultimately show "p < length widths \<and> length (?chunk ! p) \<le> widths ! p"
          using ip by simp
      qed
      from joinColumns_length [OF cne cover cnl]
      obtain r where r: "joinColumns ?chunk widths = Return r"
        and rlen: "length r \<le> sum_list widths + 2 * (length ?chunk - 1)"
        and rnl: "\<not> includes_newline r" by blast
      from r each [OF i] have ri: "rows ! i = r" by simp
      have "length r \<le> sum_list widths + 2 * (w - 1)"
        using rlen clen by linarith
      then have "int (length r) \<le> int (sum_list widths + 2 * (w - 1))"
        by (simp only: of_nat_le_iff)
      also have "\<dots> = int (sum_list widths) + (int w - 1) * 2"
        using pos by (simp add: of_nat_diff)
      also have "\<dots> = totalWidth (map length items) (int w)"
        by (simp add: totalWidth_def widths sum_ns_sum_list)
      finally have "int (length r) \<le> cfg_maxLineLength c" using fit by linarith
      then have "payload_ok c r" by (simp add: payload_ok_def)
      with rnl ri show ?thesis by (simp add: single_item_ok)
    qed
  qed
  then have "list_all (item_ok c) rows"
    using len by (simp add: list_all_length)
  with nonempty show ?thesis by simp
qed

lemma single_line_value_ok:
  assumes "\<not> includes_newline l"
      and "scalar_text l \<or> l = ''[]'' \<or> l = ''{}'' \<or> int keyLength + int (length l) \<le> cfg_maxLineLength c"
  shows "value_ok c keyLength l"
  unfolding value_ok_def using assms by (intro exI [of _ "[l]"]) simp

lemma formatObject_ok:
  assumes ind: "\<not> includes_newline (cfg_indent c)"
      and items: "list_all (item_ok c) items"
  shows "value_ok c keyLength (formatObject c items depth nestedItems keyLength allowInline)"
proof (cases "items = []")
  case True
  then show ?thesis
    by (simp add: formatObject_def single_line_value_ok includes_newline_set newline_def)
next
  case False
  let ?line = "''{ '' @ join '', '' items @ '' }''"
  show ?thesis
  proof (cases "allowInline \<and> \<not> nestedItems \<and> int (length items) \<le> cfg_maxObjectProperties c \<and>
           int keyLength + int (length ?line) \<le> cfg_maxLineLength c \<and> \<not> includes_newline ?line")
    case True
    then have "formatObject c items depth nestedItems keyLength allowInline = ?line"
      using False by (simp add: formatObject_def)
    moreover have "value_ok c keyLength ?line"
      using True by (intro single_line_value_ok) simp_all
    ultimately show ?thesis by simp
  next
    case inline: False
    then have "formatObject c items depth nestedItems keyLength allowInline
               = one_per_line ''{'' ''}'' (cfg_indent c) depth items"
      using False by (auto simp: formatObject_def)
    then show ?thesis using one_per_line_ok [OF ind False items] by simp
  qed
qed

lemma formatArray_ok:
  assumes ind: "\<not> includes_newline (cfg_indent c)"
      and items: "list_all (item_ok c) items"
      and res: "formatArray c items depth nestedItems keyLength allowInline = Return s"
  shows "value_ok c keyLength s"
proof (cases "items = []")
  case True
  with res have "s = ''[]''" by (simp add: formatArray_def)
  then show ?thesis
    by (simp add: single_line_value_ok includes_newline_set newline_def)
next
  case False
  let ?line = "''[ '' @ join '', '' items @ '' ]''"
  show ?thesis
  proof (cases "allowInline \<and> \<not> nestedItems \<and> int (length items) \<le> cfg_maxArrayItems c \<and>
           list_all (\<lambda>item. of_nat (length item) \<le> cfg_maxArrayItemLength c) items \<and>
           int keyLength + int (length ?line) \<le> cfg_maxLineLength c \<and> \<not> includes_newline ?line")
    case True
    then have "s = ?line"
      using False res by (simp add: formatArray_def)
    moreover have "value_ok c keyLength ?line"
      using True by (intro single_line_value_ok) simp_all
    ultimately show ?thesis by simp
  next
    case inline: False
    show ?thesis
    proof (cases "cfg_compactLongArrays c \<and> int (length items) > cfg_maxArrayItems c \<and>
             list_all (\<lambda>item. \<not> includes_newline item \<and> \<not> opens_bracket item) items \<and>
             roughly_uniform (map length items)")
      case True
      obtain w widths where fm:
        "findMaxItemsWide items (map length items) (cfg_maxLineLength c) = (w, widths)"
        by (cases "findMaxItemsWide items (map length items) (cfg_maxLineLength c)")
      from findMaxItemsWide_facts [of items "map length items" "cfg_maxLineLength c"] fm
      have pos: "0 < w" by simp
      from res False inline True fm pos
      have "and_then
              (in_order (map (\<lambda>i. joinColumns (take w (drop (i * w) items)) widths)
                           [0..<(length items + w - 1) div w]))
              (\<lambda>rows. Return (one_per_line ''['' '']'' (cfg_indent c) depth rows)) = Return s"
        by (auto simp: formatArray_def Let_def)
      then obtain rows where rows: "in_order (map (\<lambda>i. joinColumns (take w (drop (i * w) items)) widths)
                           [0..<(length items + w - 1) div w]) = Return rows"
        and s: "s = one_per_line ''['' '']'' (cfg_indent c) depth rows"
        by (auto dest!: and_then_Return)
      from True have guard: "list_all (\<lambda>item. \<not> includes_newline item \<and> \<not> opens_bracket item) items"
        by simp
      from packed_rows_ok [OF False items guard fm rows]
      have "rows \<noteq> []" "list_all (item_ok c) rows" by simp_all
      from one_per_line_ok [OF ind this] s show ?thesis by simp
    next
      case packed: False
      with res False inline have "s = one_per_line ''['' '']'' (cfg_indent c) depth items"
        by (auto simp: formatArray_def Let_def)
      then show ?thesis using one_per_line_ok [OF ind False items] by simp
    qed
  qed
qed

text \<open>The rows of a table have no line break: every cell is checked for one.\<close>

lemma cells_no_newline_iff:
  "cells_no_newline cells = (\<forall>s. Some s \<in> set cells \<longrightarrow> \<not> includes_newline s)"
  by (auto simp: cells_no_newline_def list_all_iff split: option.splits)

lemma until_null_list_all2:
  "until_null ms = Return (Some ys) \<Longrightarrow> list_all2 (\<lambda>m y. m = Return (Some y)) ms ys"
proof (induction ms arbitrary: ys)
  case Nil
  then show ?case by simp
next
  case (Cons m ms)
  show ?case
  proof (cases m)
    case (Return x)
    show ?thesis
    proof (cases x)
      case None
      with Return Cons.prems show ?thesis by simp
    next
      case (Some a)
      with Return Cons.prems obtain xs where xs: "until_null ms = Return (Some xs)" and ys: "ys = a # xs"
        by (auto dest!: and_then_Return)
      from Cons.IH [OF xs] Return Some ys show ?thesis by simp
    qed
  qed (use Cons.prems in simp_all)
qed

lemma until_null_map_set:
  assumes "until_null (map f xs) = Return (Some ys)" and "y \<in> set ys"
  shows "\<exists>x \<in> set xs. f x = Return (Some y)"
proof -
  from until_null_list_all2 [OF assms(1)]
  have l: "list_all2 (\<lambda>m y. m = Return (Some y)) (map f xs) ys" .
  from assms(2) obtain i where i: "i < length ys" "ys ! i = y" by (auto simp: in_set_conv_nth)
  from l i have "i < length xs" "f (xs ! i) = Return (Some y)"
    by (auto simp: list_all2_conv_all_nth)
  then show ?thesis by (auto intro: bexI [of _ "xs ! i"])
qed

lemma in_order_map_set:
  assumes "in_order (map f xs) = Return ys" and "y \<in> set ys"
  shows "\<exists>x \<in> set xs. f x = Return y"
proof -
  from in_order_list_all2 [OF assms(1)]
  have l: "list_all2 (\<lambda>m y. m = Return y) (map f xs) ys" .
  from assms(2) obtain i where i: "i < length ys" "ys ! i = y" by (auto simp: in_set_conv_nth)
  from l i have "i < length xs" "f (xs ! i) = Return y"
    by (auto simp: list_all2_conv_all_nth)
  then show ?thesis by (auto intro: bexI [of _ "xs ! i"])
qed

lemma cells_no_newline_map:
  assumes "cells_no_newline cells" and "\<And>s. \<not> includes_newline s \<Longrightarrow> \<not> includes_newline (g s)"
  shows "cells_no_newline (map (map_option g) cells)"
  using assms by (induction cells) (auto simp: cells_no_newline_def split: option.splits)

lemma decimalAlignment_no_newline:
  "cells_no_newline cells \<Longrightarrow> cells_no_newline (decimalAlignment cells)"
  unfolding decimalAlignment_def Let_def
  by (rule cells_no_newline_map) (auto simp: includes_newline_set newline_def)

lemma finish_array_column_no_newline:
  "cells_no_newline cells \<Longrightarrow> cells_no_newline (fst (finish_array_column c cells))"
  by (simp add: finish_array_column_def decimalAlignment_no_newline)

lemma finish_object_column_no_newline:
  assumes "cells_no_newline cells" and "finish_object_column c (quote_string k) cells = Some col"
  shows "cells_no_newline (fst col)"
proof -
  let ?aligned = "if list_all numeric_text (List.map_filter id cells) then decimalAlignment cells else cells"
  have a: "cells_no_newline ?aligned" using assms(1) by (simp add: decimalAlignment_no_newline)
  have "fst col = map (map_option (\<lambda>s. quote_string k @ '': '' @ s)) ?aligned"
    using assms(2) by (auto simp: finish_object_column_def Let_def split: if_splits)
  moreover have "cells_no_newline (map (map_option (\<lambda>s. quote_string k @ '': '' @ s)) ?aligned)"
    using a
  proof (rule cells_no_newline_map)
    fix s assume "\<not> includes_newline s"
    then show "\<not> includes_newline (quote_string k @ '': '' @ s)"
      using no_nl_quote_string [of k] by (auto simp: includes_newline_set newline_def)
  qed
  ultimately show ?thesis by simp
qed

lemma spaces_no_newline: "spaces g = Return pad \<Longrightarrow> \<not> includes_newline pad"
  by (cases g) (auto simp: includes_newline_set newline_def split: if_splits)

lemma row_part_no_newline:
  assumes cols: "\<forall>col \<in> set columns. cells_no_newline (fst col)"
      and part: "row_part columns i lastFilledColumn columnIndex = Return part"
  shows "\<not> includes_newline part"
proof -
  from part have j: "columnIndex < length columns"
    by (auto simp: row_part_def split: if_splits)
  let ?col = "columns ! columnIndex"
  from cols j have colok: "cells_no_newline (fst ?col)" by simp
  show ?thesis
  proof (cases "cell_at ?col i")
    case None
    with part j show ?thesis
      by (auto simp: row_part_def Let_def dest: spaces_no_newline)
  next
    case (Some s)
    then have "i < length (fst ?col)" "fst ?col ! i = Some s"
      by (auto simp: cell_at_def split: if_splits)
    then have "Some s \<in> set (fst ?col)"
      by (metis nth_mem)
    with colok have snl: "\<not> includes_newline s" by (simp add: cells_no_newline_iff)
    from part j Some obtain pad where
      pad: "spaces (map_option (\<lambda>w. int w - int (length s) + 1) (snd ?col)) = Return pad"
      and p: "part = s @ (if Some (int columnIndex) = lastFilledColumn then [] else '','') @ pad"
      by (auto simp: row_part_def Let_def dest!: and_then_Return)
    from spaces_no_newline [OF pad] snl p show ?thesis
      by (auto simp: includes_newline_set newline_def)
  qed
qed

lemma row_parts_no_newline:
  assumes cols: "\<forall>col \<in> set columns. cells_no_newline (fst col)"
      and parts: "in_order (map (row_part columns i lastFilledColumn) js) = Return parts"
  shows "\<not> includes_newline (concat parts)"
proof -
  have "\<not> includes_newline p" if "p \<in> set parts" for p
  proof -
    from in_order_map_set [OF parts that] obtain j where "row_part columns i lastFilledColumn j = Return p"
      by blast
    from row_part_no_newline [OF cols this] show ?thesis .
  qed
  then show ?thesis by (auto simp: includes_newline_set)
qed

lemma array_row_no_newline:
  assumes cols: "\<forall>col \<in> set columns. cells_no_newline (fst col)"
      and row: "array_row c columns columnCount i row = Return r"
  shows "\<not> includes_newline r"
proof (cases "row = VUndefined")
  case True
  with row show ?thesis by (simp add: array_row_def includes_newline_set)
next
  case False
  with row obtain lastFilledColumn js parts where
    parts: "in_order (map (row_part columns i lastFilledColumn) js) = Return parts"
    and r: "r = ''[ '' @ concat parts @ '']''"
    by (auto simp: array_row_def Let_def dest!: and_then_Return)
  from row_parts_no_newline [OF cols parts] r show ?thesis
    by (auto simp: includes_newline_set newline_def)
qed

lemma object_row_no_newline:
  assumes cols: "\<forall>col \<in> set columns. cells_no_newline (fst col)"
      and row: "object_row c columns columnOrder i row = Return r"
  shows "\<not> includes_newline r"
proof (cases "row = VUndefined")
  case True
  with row show ?thesis by (simp add: object_row_def includes_newline_set)
next
  case False
  with row obtain lastFilledColumn js parts where
    parts: "in_order (map (row_part columns i lastFilledColumn) js) = Return parts"
    and r: "r = ''{ '' @ concat parts @ ''}''"
    by (auto simp: object_row_def Let_def dest!: and_then_Return)
  from row_parts_no_newline [OF cols parts] r show ?thesis
    by (auto simp: includes_newline_set newline_def)
qed

lemma label_row_no_newline:
  assumes "label_row (map quote_string keys) keyColumnWidth i item = Return s"
      and "\<not> includes_newline item"
  shows "\<not> includes_newline s"
proof -
  from assms(1) have i: "i < length keys"
    by (auto simp: label_row_def split: if_splits)
  with assms(1) obtain pad where
    pad: "spaces (map_option (\<lambda>w. w - int (length (quote_string (keys ! i)))) keyColumnWidth) = Return pad"
    and s: "s = quote_string (keys ! i) @ '':'' @ pad @ item"
    by (auto simp: label_row_def dest!: and_then_Return)
  from spaces_no_newline [OF pad] no_nl_quote_string [of "keys ! i"] assms(2) s show ?thesis
    by (auto simp: includes_newline_set newline_def)
qed

lemma table_rows_no_newline:
  assumes res: "and_then (until_null (map colf xs))
             (\<lambda>built. case built of
                None \<Rightarrow> Return None
              | Some columns \<Rightarrow> and_then (in_order (map (rowf columns) ys)) (\<lambda>table. Return (Some table)))
           = Return (Some t)"
      and col: "\<And>x col. colf x = Return (Some col) \<Longrightarrow> cells_no_newline (fst col)"
      and row: "\<And>columns y r. \<forall>col \<in> set columns. cells_no_newline (fst col) \<Longrightarrow>
                  rowf columns y = Return r \<Longrightarrow> \<not> includes_newline r"
  shows "list_all (\<lambda>r. \<not> includes_newline r) t"
proof -
  from res obtain columns where built: "until_null (map colf xs) = Return (Some columns)"
    and rows: "in_order (map (rowf columns) ys) = Return t"
    by (auto dest!: and_then_Return split: option.splits)
  have cols: "\<forall>col \<in> set columns. cells_no_newline (fst col)"
    using until_null_map_set [OF built] col by blast
  show ?thesis
    unfolding list_all_iff
    using in_order_map_set [OF rows] row [OF cols] by blast
qed

lemma column_no_newline:
  assumes col: "(case order of
              None \<Rightarrow> whole
            | Some sub \<Rightarrow>
                if tooMany sub then Return None
                else and_then (if b then ta sub else tb sub)
                       (\<lambda>subtable. case f subtable of
                          None \<Rightarrow> whole
                        | Some [] \<Rightarrow> Throw TypeError
                        | Some (s # r) \<Rightarrow> Return (Some (map Some (s # r), Some (length s)))))
           = Return (Some (col :: table_column))"
      and whole: "whole = Return (Some col) \<Longrightarrow> cells_no_newline (fst col)"
      and sub: "\<And>sub subtable rows. ta sub = Return subtable \<or> tb sub = Return subtable \<Longrightarrow>
                  f subtable = Some rows \<Longrightarrow> list_all (\<lambda>r. \<not> includes_newline r) rows"
  shows "cells_no_newline (fst col)"
proof (cases order)
  case None
  with col whole show ?thesis by simp
next
  case (Some sub')
  with col have call: "and_then (if b then ta sub' else tb sub')
                 (\<lambda>subtable. case f subtable of
                    None \<Rightarrow> whole
                  | Some [] \<Rightarrow> Throw TypeError
                  | Some (s # r) \<Rightarrow> Return (Some (map Some (s # r), Some (length s))))
               = Return (Some col)"
    by (simp split: if_splits)
  from and_then_Return [OF call] obtain subtable where
    st: "(if b then ta sub' else tb sub') = Return subtable"
    and rest: "(case f subtable of
                  None \<Rightarrow> whole
                | Some [] \<Rightarrow> Throw TypeError
                | Some (s # r) \<Rightarrow> Return (Some (map Some (s # r), Some (length s))))
               = Return (Some col)"
    by blast
  from st have called: "ta sub' = Return subtable \<or> tb sub' = Return subtable"
    by (simp split: if_splits)
  show ?thesis
  proof (cases "f subtable")
    case None
    with rest whole show ?thesis by simp
  next
    case (Some rows)
    from sub [OF called Some] have ok: "list_all (\<lambda>r. \<not> includes_newline r) rows" .
    show ?thesis
    proof (cases rows)
      case Nil
      with Some rest show ?thesis by simp
    next
      case (Cons s r)
      with Some rest have "col = (map Some rows, Some (length s))" by simp
      moreover have "cells_no_newline (map Some rows)"
        using ok by (induction rows) (simp_all add: cells_no_newline_def)
      ultimately show ?thesis by simp
    qed
  qed
qed

lemma checked_column:
  assumes col: "and_then
                  (until_null (map (\<lambda>v. if v = VUndefined then Return (Some None)
                     else and_then (pv v) (\<lambda>p. and_then (result_of p) (\<lambda>r.
                            if bad r then Return None else Return (Some (Some (g r))))))
                   column))
                  (\<lambda>cells. Return (fin cells)) = Return (Some (col :: table_column))"
      and g: "\<And>r. \<not> bad r \<Longrightarrow> \<not> includes_newline (g r)"
      and none: "fin None = None"
      and fin: "\<And>cells. cells_no_newline cells \<Longrightarrow> fin (Some cells) = Some col \<Longrightarrow> cells_no_newline (fst col)"
  shows "cells_no_newline (fst col)"
proof -
  from and_then_Return [OF col] obtain built where
    built: "until_null (map (\<lambda>v. if v = VUndefined then Return (Some None)
                     else and_then (pv v) (\<lambda>p. and_then (result_of p) (\<lambda>r.
                            if bad r then Return None else Return (Some (Some (g r))))))
                   column) = Return built"
    and f: "fin built = Some col" by auto
  from f none obtain cells where b: "built = Some cells" by (cases built) auto
  have "cells_no_newline cells"
    unfolding cells_no_newline_iff
  proof (intro allI impI)
    fix s assume "Some s \<in> set cells"
    from until_null_map_set [OF built [unfolded b] this] obtain v where
      "(if v = VUndefined then Return (Some None)
        else and_then (pv v) (\<lambda>p. and_then (result_of p) (\<lambda>r.
               if bad r then Return None else Return (Some (Some (g r)))))) = Return (Some (Some s))"
      by blast
    then obtain r where "\<not> bad r" "s = g r"
      by (auto dest!: and_then_Return split: if_splits)
    with g show "\<not> includes_newline s" by simp
  qed
  from fin [OF this] f b show ?thesis by simp
qed

lemma tableOfArrays_step_no_newline:
  assumes toa: "\<And>rows k t. tableOfArrays_rec c rows k = Return (Some t) \<Longrightarrow> list_all (\<lambda>r. \<not> includes_newline r) t"
      and too: "\<And>rows order t. tableOfObjects_rec c rows order = Return (Some t) \<Longrightarrow> list_all (\<lambda>r. \<not> includes_newline r) t"
      and res: "tableOfArrays_step processValue_rec tableOfArrays_rec tableOfObjects_rec c rowArrs columnCount
                = Return (Some t)"
  shows "list_all (\<lambda>r. \<not> includes_newline r) t"
proof (rule table_rows_no_newline [OF res [unfolded tableOfArrays_step_def Let_def]], goal_cases)
  case (1 i col)
  show ?case
  proof (rule column_no_newline [OF 1], goal_cases)
    case 1
    show ?case
      by (rule checked_column [OF 1]) (auto simp: finish_array_column_no_newline)
  next
    case (2 sub subtable rows)
    then show ?case using toa too by auto
  qed
next
  case (2 columns y r)
  then show ?case by (cases y) (auto dest: array_row_no_newline)
qed

lemma if_outcome:
  assumes "(if b then A else B) = R" and "b \<Longrightarrow> A = R \<Longrightarrow> P" and "\<not> b \<Longrightarrow> B = R \<Longrightarrow> P"
  shows P
  using assms by (cases b) simp_all

lemma tableOfObjects_step_no_newline:
  assumes toa: "\<And>rows k t. tableOfArrays_rec c rows k = Return (Some t) \<Longrightarrow> list_all (\<lambda>r. \<not> includes_newline r) t"
      and too: "\<And>rows order t. tableOfObjects_rec c rows order = Return (Some t) \<Longrightarrow> list_all (\<lambda>r. \<not> includes_newline r) t"
      and res: "tableOfObjects_step processValue_rec tableOfArrays_rec tableOfObjects_rec c rowObjs columnOrder
                = Return (Some t)"
  shows "list_all (\<lambda>r. \<not> includes_newline r) t"
proof (rule table_rows_no_newline [OF res [unfolded tableOfObjects_step_def Let_def]], goal_cases)
  case (1 columnKey col)
  have label: "\<not> includes_newline (quote_string columnKey @ '': '' @ s)" if "\<not> includes_newline s" for s
    using that no_nl_quote_string [of columnKey] by (auto simp: includes_newline_set newline_def)
  show ?case
  proof (rule column_no_newline [OF 1], goal_cases)
    case 1
    show ?case
    proof (rule if_outcome [OF 1], goal_cases)
      case 1
      show ?case
        by (rule checked_column [OF 1(2)]) (auto dest: finish_object_column_no_newline)
    next
      case 2
      show ?case
        by (rule checked_column [OF 2(2)]) (use label in auto)
    qed
  next
    case (2 sub subtable rows)
    then obtain rows' where "subtable = Some rows'"
      and rows: "rows = map (\<lambda>s. quote_string columnKey @ '': '' @ s) rows'" by auto
    with 2(1) toa too have "list_all (\<lambda>r. \<not> includes_newline r) rows'" by auto
    then show ?case unfolding rows using label
      by (auto simp: list_all_iff simp del: includes_newline_append)
  qed
next
  case (2 columns y r)
  then show ?case by (cases y) (auto dest: object_row_no_newline)
qed

text \<open>One call of \<^verbatim>\<open>processValue\<close>, given the invariants for the calls it makes.\<close>

lemma branches:
  assumes "(if c1 then A1 else if c2 then A2 else if c3 then A3 else if c4 then A4
            else if c5 then A5 else if c6 then A6 else A7) = R"
      and "A1 = R \<Longrightarrow> P" and "A2 = R \<Longrightarrow> P" and "A3 = R \<Longrightarrow> P" and "A4 = R \<Longrightarrow> P"
      and "A5 = R \<Longrightarrow> P" and "A6 = R \<Longrightarrow> P" and "A7 = R \<Longrightarrow> P"
  shows P
  using assms by (auto split: if_splits)

lemma tabled_or_not:
  assumes "and_then attempt (\<lambda>tabled. case tabled of Some p \<Rightarrow> Return p | None \<Rightarrow> rest) = Return R"
      and "attempt = Return (Some R) \<Longrightarrow> P"
      and "rest = Return R \<Longrightarrow> P"
  shows P
  using assms by (auto dest!: and_then_Return split: option.splits)

lemma JSON_stringify_scalar_text: "JSON_stringify_scalar v = Return s \<Longrightarrow> scalar_text s"
  by (cases v) (auto simp: scalar_text_def)

lemma bounded_row_ok:
  assumes "\<not> includes_newline r" and "int (length r) \<le> cfg_maxLineLength c"
  shows "item_ok c r"
  using assms by (intro single_item_ok) (simp_all add: payload_ok_def)

lemma array_table_ok:
  assumes ind: "\<not> includes_newline (cfg_indent c)"
      and toa: "\<And>rows k t. tableOfArrays_rec c rows k = Return (Some t) \<Longrightarrow> list_all (\<lambda>r. \<not> includes_newline r) t"
      and too: "\<And>rows order t. tableOfObjects_rec c rows order = Return (Some t) \<Longrightarrow> list_all (\<lambda>r. \<not> includes_newline r) t"
      and res: "(if guard then
                  (case order of
                     None \<Rightarrow> Return None
                   | Some columnOrder \<Rightarrow>
                       and_then
                         (if isArr then tableOfArrays_rec c rows (k columnOrder)
                          else tableOfObjects_rec c rows columnOrder)
                         (\<lambda>table. case table of
                            None \<Rightarrow> Return None
                          | Some items \<Rightarrow>
                              if list_all (\<lambda>e. int (length e) \<le> cfg_maxLineLength c) items
                              then and_then (formatArray c items depth True keyLength True)
                                     (\<lambda>r. Return (Some (Processed r True)))
                              else Return None))
                else Return None) = Return (Some (Processed s b))"
  shows "value_ok c keyLength s"
proof -
  from res obtain columnOrder items where
    called: "tableOfArrays_rec c rows (k columnOrder) = Return (Some items)
             \<or> tableOfObjects_rec c rows columnOrder = Return (Some items)"
    and short: "list_all (\<lambda>e. int (length e) \<le> cfg_maxLineLength c) items"
    and s: "formatArray c items depth True keyLength True = Return s"
    by (auto dest!: and_then_Return split: if_splits option.splits; blast)
  from called toa too have "list_all (\<lambda>r. \<not> includes_newline r) items" by blast
  with short have "list_all (item_ok c) items"
    by (auto simp: list_all_iff intro: bounded_row_ok)
  from formatArray_ok [OF ind this s] show ?thesis .
qed

lemma object_table_ok:
  assumes ind: "\<not> includes_newline (cfg_indent c)"
      and toa: "\<And>rows k t. tableOfArrays_rec c rows k = Return (Some t) \<Longrightarrow> list_all (\<lambda>r. \<not> includes_newline r) t"
      and too: "\<And>rows order t. tableOfObjects_rec c rows order = Return (Some t) \<Longrightarrow> list_all (\<lambda>r. \<not> includes_newline r) t"
      and res: "(if guard then
                  (case order of
                     None \<Rightarrow> Return None
                   | Some columnOrder \<Rightarrow>
                       if tooMany columnOrder then Return (Some ProcessedNull)
                       else
                         and_then
                           (if isArr then tableOfArrays_rec c rows (k columnOrder)
                            else tableOfObjects_rec c rows columnOrder)
                           (\<lambda>table. case table of
                              None \<Rightarrow> Return None
                            | Some rows \<Rightarrow>
                                and_then
                                  (in_order (map (\<lambda>(i, item). label_row (map quote_string keys) keyColumnWidth i item)
                                               (enumerate 0 rows)))
                                  (\<lambda>items.
                                     if list_ex (\<lambda>e. int (length e) > cfg_maxLineLength c) items
                                     then Return None
                                     else Return (Some (Processed (formatObject c items depth True keyLength True) True)))))
                else Return None) = Return (Some (Processed s b))"
  shows "value_ok c keyLength s"
proof -
  from res obtain columnOrder rows' items where
    called: "tableOfArrays_rec c rows (k columnOrder) = Return (Some rows')
             \<or> tableOfObjects_rec c rows columnOrder = Return (Some rows')"
    and labelled: "in_order (map (\<lambda>(i, item). label_row (map quote_string keys) keyColumnWidth i item)
                     (enumerate 0 rows')) = Return items"
    and short: "\<not> list_ex (\<lambda>e. int (length e) > cfg_maxLineLength c) items"
    and s: "s = formatObject c items depth True keyLength True"
    by (auto dest!: and_then_Return split: if_splits option.splits; blast)
  from called toa too have nl: "list_all (\<lambda>r. \<not> includes_newline r) rows'" by blast
  have "item_ok c it" if it: "it \<in> set items" for it
  proof -
    from in_order_map_set [OF labelled it] obtain i item where
      "(i, item) \<in> set (enumerate 0 rows')"
      and l: "label_row (map quote_string keys) keyColumnWidth i item = Return it" by auto
    then have "item \<in> set rows'" by (auto simp: in_set_enumerate_eq)
    with nl have "\<not> includes_newline item" by (simp add: list_all_iff)
    from label_row_no_newline [OF l this] have "\<not> includes_newline it" .
    moreover from short it have "int (length it) \<le> cfg_maxLineLength c"
      by (auto simp: list_ex_iff)
    ultimately show ?thesis by (rule bounded_row_ok)
  qed
  then have "list_all (item_ok c) items" by (simp add: list_all_iff)
  from formatObject_ok [OF ind this] s show ?thesis by simp
qed

lemma array_items_ok:
  assumes ind: "\<not> includes_newline (cfg_indent c)"
      and pv: "\<And>key v depth parent kl allow s b.
                 processValue_rec c key v depth parent kl allow = Return (Processed s b) \<Longrightarrow> value_ok c kl s"
      and res: "and_then
                 (in_order (map (\<lambda>(i, item).
                    and_then (processValue_rec c (String_of_nat i) item (depth + 1) val 0 True) result_of)
                    xs))
                 (\<lambda>items. case flags of
                    (nested, multipleNestedItems) \<Rightarrow>
                      and_then (formatArray c items depth multipleNestedItems keyLength allowInline)
                        (\<lambda>r. Return (Processed r nested))) = Return (Processed s b)"
  shows "value_ok c keyLength s"
proof -
  obtain nested multipleNestedItems where flags: "flags = (nested, multipleNestedItems)" by (cases flags)
  with res obtain items where
    items: "in_order (map (\<lambda>(i, item).
                    and_then (processValue_rec c (String_of_nat i) item (depth + 1) val 0 True) result_of)
                    xs) = Return items"
    and s: "formatArray c items depth multipleNestedItems keyLength allowInline = Return s"
    by (auto dest!: and_then_Return)
  have "item_ok c it" if it: "it \<in> set items" for it
  proof -
    from in_order_map_set [OF items it] obtain i item where
      "and_then (processValue_rec c (String_of_nat i) item (depth + 1) val 0 True) result_of = Return it"
      by auto
    then obtain p where p: "processValue_rec c (String_of_nat i) item (depth + 1) val 0 True = Return p"
      and r: "result_of p = Return it" by (auto dest!: and_then_Return)
    from r obtain n where "p = Processed it n" by (cases p) auto
    with p pv have "value_ok c 0 it" by blast
    then have "value_ok c (length ([] :: string)) it" by simp
    from value_item [OF this] show ?thesis by (simp add: key_label_def)
  qed
  then have "list_all (item_ok c) items" by (simp add: list_all_iff)
  from formatArray_ok [OF ind this s] show ?thesis .
qed

lemma object_entries_ok:
  assumes ind: "\<not> includes_newline (cfg_indent c)"
      and pv: "\<And>key v depth parent kl allow s b.
                 processValue_rec c key v depth parent kl allow = Return (Processed s b) \<Longrightarrow> value_ok c kl s"
      and res: "and_then
                  (in_order (map (\<lambda>k.
                     and_then (processValue_rec c k (prop k) (depth + 1) val (length (quote_string k @ '': '')) True)
                       (\<lambda>p. and_then (nested_of p) (\<lambda>pn.
                          and_then (result_of p) (\<lambda>r. Return ((quote_string k @ '': '') @ r, pn)))))
                     keys))
                  (\<lambda>entries.
                     Return (Processed
                       (formatObject c (map fst entries) depth (list_ex snd entries) keyLength allowInline)
                       nested)) = Return (Processed s b)"
  shows "value_ok c keyLength s"
proof -
  from res obtain entries where
    entries: "in_order (map (\<lambda>k.
                     and_then (processValue_rec c k (prop k) (depth + 1) val (length (quote_string k @ '': '')) True)
                       (\<lambda>p. and_then (nested_of p) (\<lambda>pn.
                          and_then (result_of p) (\<lambda>r. Return ((quote_string k @ '': '') @ r, pn)))))
                     keys) = Return entries"
    and s: "s = formatObject c (map fst entries) depth (list_ex snd entries) keyLength allowInline"
    by (auto dest!: and_then_Return)
  have "item_ok c (fst e)" if e: "e \<in> set entries" for e
  proof -
    from in_order_map_set [OF entries e] obtain k where
      "and_then (processValue_rec c k (prop k) (depth + 1) val (length (quote_string k @ '': '')) True)
         (\<lambda>p. and_then (nested_of p) (\<lambda>pn.
            and_then (result_of p) (\<lambda>r. Return ((quote_string k @ '': '') @ r, pn)))) = Return e"
      by auto
    then obtain p pn r where
      p: "processValue_rec c k (prop k) (depth + 1) val (length (quote_string k @ '': '')) True = Return p"
      and r: "result_of p = Return r" and e: "e = ((quote_string k @ '': '') @ r, pn)"
      by (auto dest!: and_then_Return)
    from r obtain n where "p = Processed r n" by (cases p) auto
    with p pv have "value_ok c (length (quote_string k @ '': '')) r" by blast
    moreover have "key_label (quote_string k @ '': '')" unfolding key_label_def by blast
    ultimately have "item_ok c ((quote_string k @ '': '') @ r)" by (rule value_item)
    with e show ?thesis by simp
  qed
  then have "list_all (item_ok c) (map fst entries)" by (simp add: list_all_iff)
  from formatObject_ok [OF ind this] s show ?thesis by simp
qed

lemma processValue_step_ok:
  assumes ind: "\<not> includes_newline (cfg_indent c)"
      and pv: "\<And>key v depth parent kl allow s b.
                 processValue_rec c key v depth parent kl allow = Return (Processed s b) \<Longrightarrow> value_ok c kl s"
      and toa: "\<And>rows k t. tableOfArrays_rec c rows k = Return (Some t) \<Longrightarrow> list_all (\<lambda>r. \<not> includes_newline r) t"
      and too: "\<And>rows order t. tableOfObjects_rec c rows order = Return (Some t) \<Longrightarrow> list_all (\<lambda>r. \<not> includes_newline r) t"
      and res: "processValue_step processValue_rec tableOfArrays_rec tableOfObjects_rec c key val0 depth
                  parentObj keyLength allowTables = Return (Processed s b)"
  shows "value_ok c keyLength s"
proof (rule branches [OF res [unfolded processValue_step_def Let_def]], goal_cases)
  case 1
  then show ?case
    by (auto intro!: single_line_value_ok simp: scalar_text_def includes_newline_set newline_def)
next
  case 2
  then obtain r where "JSON_stringify_scalar
         (case cfg_replaceFunc c of None \<Rightarrow> val0 | Some replaceFunc \<Rightarrow> replaceFunc parentObj key val0) = Return s"
    by (auto dest!: and_then_Return)
  from JSON_stringify_scalar_text [OF this] show ?case
    by (auto intro!: single_line_value_ok dest: no_nl_scalar_text)
next
  case 3
  then show ?case
    by (auto intro!: single_line_value_ok simp: scalar_text_def includes_newline_set newline_def
             split: if_splits)
next
  case 4
  from pv [OF 4] show ?case .
next
  case 5
  show ?case
  proof (rule tabled_or_not [OF 5], goal_cases)
    case 1
    from array_table_ok [where tableOfArrays_rec = tableOfArrays_rec and tableOfObjects_rec = tableOfObjects_rec and c = c, OF ind toa too 1] show ?case .
  next
    case 2
    from array_items_ok [where processValue_rec = processValue_rec and c = c, OF ind pv 2] show ?case .
  qed
next
  case 6
  show ?case
  proof (rule tabled_or_not [OF 6], goal_cases)
    case 1
    from object_table_ok [where tableOfArrays_rec = tableOfArrays_rec and tableOfObjects_rec = tableOfObjects_rec and c = c, OF ind toa too 1] show ?case .
  next
    case 2
    from object_entries_ok [where processValue_rec = processValue_rec and c = c, OF ind pv 2] show ?case .
  qed
next
  case 7
  then show ?case by simp
qed

lemma layout_lines:
  assumes ind: "\<not> includes_newline (cfg_indent c)"
  shows "(\<forall>key v depth parent kl allow s b.
            processValue n c key v depth parent kl allow = Return (Processed s b) \<longrightarrow> value_ok c kl s)
       \<and> (\<forall>rows k t. tableOfArrays n c rows k = Return (Some t) \<longrightarrow> list_all (\<lambda>r. \<not> includes_newline r) t)
       \<and> (\<forall>rows order t. tableOfObjects n c rows order = Return (Some t) \<longrightarrow> list_all (\<lambda>r. \<not> includes_newline r) t)"
proof (induction n)
  case 0
  show ?case by simp
next
  case (Suc n)
  then have pv: "\<And>key v depth parent kl allow s b.
                   processValue n c key v depth parent kl allow = Return (Processed s b) \<Longrightarrow> value_ok c kl s"
    and toa: "\<And>rows k t. tableOfArrays n c rows k = Return (Some t) \<Longrightarrow> list_all (\<lambda>r. \<not> includes_newline r) t"
    and too: "\<And>rows order t. tableOfObjects n c rows order = Return (Some t) \<Longrightarrow> list_all (\<lambda>r. \<not> includes_newline r) t"
    by blast+
  have "value_ok c kl s"
    if "processValue (Suc n) c key v depth parent kl allow = Return (Processed s b)"
    for key v depth parent kl allow s b
    using that
    by (simp only: processValue.simps)
       (rule processValue_step_ok [where processValue_rec = "processValue n"
          and tableOfArrays_rec = "tableOfArrays n" and tableOfObjects_rec = "tableOfObjects n",
          OF ind pv toa too])
  moreover have "list_all (\<lambda>r. \<not> includes_newline r) t"
    if "tableOfArrays (Suc n) c rows k = Return (Some t)" for rows k t
    using that
    by (simp only: tableOfArrays.simps)
       (rule tableOfArrays_step_no_newline [where tableOfArrays_rec = "tableOfArrays n"
          and tableOfObjects_rec = "tableOfObjects n", OF toa too])
  moreover have "list_all (\<lambda>r. \<not> includes_newline r) t"
    if "tableOfObjects (Suc n) c rows order = Return (Some t)" for rows order t
    using that
    by (simp only: tableOfObjects.simps)
       (rule tableOfObjects_step_no_newline [where tableOfArrays_rec = "tableOfArrays n"
          and tableOfObjects_rec = "tableOfObjects n", OF toa too])
  ultimately show ?case by blast
qed

lemma split_line_prefix:
  "\<not> includes_newline l \<Longrightarrow>
   foldr (\<lambda>ch acc. if ch = newline then [] # acc else (ch # hd acc) # tl acc) l (x # xs) = (l @ x) # xs"
  by (induction l) (auto simp: includes_newline_set)

lemma split_lines_single: "\<not> includes_newline l \<Longrightarrow> split_lines l = [l]"
  using split_line_prefix [of l "[]" "[]"] by (simp add: split_lines_def)

lemma split_lines_Cons:
  "\<not> includes_newline l \<Longrightarrow> split_lines (l @ newline # rest) = l # split_lines rest"
  using split_line_prefix [of l "[]" "split_lines rest"] by (simp add: split_lines_def)

lemma split_lines_text_of_lines:
  "ls \<noteq> [] \<Longrightarrow> list_all (\<lambda>l. \<not> includes_newline l) ls \<Longrightarrow> split_lines (text_of_lines ls) = ls"
proof (induction ls rule: list_nonempty_induct)
  case (single x)
  then show ?case by (simp add: split_lines_single)
next
  case (cons x xs)
  then show ?case by (simp add: text_of_lines_Cons split_lines_Cons)
qed

lemma value_ok_lines:
  assumes "value_ok c 0 s"
  shows "list_all (line_ok c) (split_lines s)"
proof -
  have bare: "line_ok c p" if "payload_ok c p" for p
    unfolding line_ok_def using that
    by (intro exI [of _ 0] exI [of _ p] exI [of _ "[]"]) (simp add: repeat_def)
  from assms obtain ls where s: "s = text_of_lines ls" and nl: "list_all (\<lambda>l. \<not> includes_newline l) ls"
    and shape: "(\<exists>l. ls = [l] \<and> (scalar_text l \<or> l = ''[]'' \<or> l = ''{}''
                            \<or> int 0 + int (length l) \<le> cfg_maxLineLength c))
         \<or> (\<exists>b mid cl. ls = b # mid @ [cl] \<and> (b = ''['' \<or> b = ''{'') \<and> list_all (line_ok c) mid
                \<and> closing_line c cl)"
    unfolding value_ok_def by auto
  have leaf: "leaf_payload b" if "scalar_text b \<or> b = ''['' \<or> b = ''{'' \<or> b = ''[]'' \<or> b = ''{}''" for b
    unfolding leaf_payload_def key_label_def using that
    by (intro exI [of _ "[]"] exI [of _ b]) simp
  from shape have ne: "ls \<noteq> []" by auto
  from shape have "list_all (line_ok c) ls"
  proof
    assume "\<exists>l. ls = [l] \<and> (scalar_text l \<or> l = ''[]'' \<or> l = ''{}''
                            \<or> int 0 + int (length l) \<le> cfg_maxLineLength c)"
    then obtain l where ls: "ls = [l]" and l: "scalar_text l \<or> l = ''[]'' \<or> l = ''{}''
                            \<or> int (length l) \<le> cfg_maxLineLength c" by auto
    from l have "payload_ok c l" unfolding payload_ok_def using leaf [of l] by blast
    with ls bare show ?thesis by simp
  next
    assume "\<exists>b mid cl. ls = b # mid @ [cl] \<and> (b = ''['' \<or> b = ''{'') \<and> list_all (line_ok c) mid
                \<and> closing_line c cl"
    then obtain b mid cl where ls: "ls = b # mid @ [cl]" and b: "b = ''['' \<or> b = ''{''"
      and mid: "list_all (line_ok c) mid" and cl: "closing_line c cl" by blast
    from b have "line_ok c b" using leaf [of b] by (intro bare) (auto simp: payload_ok_def)
    moreover from cl have "line_ok c cl"
      unfolding closing_line_def line_ok_def payload_ok_def
      by (metis append_Nil2)
    ultimately show ?thesis using ls mid by simp
  qed
  with s ne nl show ?thesis by (simp add: split_lines_text_of_lines)
qed


text \<open>
  Claim C3, as amended. Take any value and any options whose indent is not empty and has
  no line break. Whenever \<^verbatim>\<open>stringify\<close> returns a text, each of its lines is some
  repetitions of the indent, a payload, and possibly the comma that separates it from the
  next item, where the payload is at most \<^verbatim>\<open>maxLineLength\<close> characters long, or is a
  single scalar, empty container or opening bracket after its key label, or is a closing
  bracket. So the budget bounds every line that holds an inlined container, a packed row
  or a table row, the indentation and the separating comma not counted.
\<close>

theorem lines_within_budget:
  assumes "effective_indent (opt_indent options) \<noteq> []"
      and "\<not> includes_newline (effective_indent (opt_indent options))"
      and "stringify fuel val options = Return (Some s)"
  shows "list_all (line_ok (closure_of options)) (split_lines s)"
proof -
  let ?c = "closure_of options"
  have ind: "\<not> includes_newline (cfg_indent ?c)"
    using assms(2) by (simp add: closure_of_def Let_def)
  from assms(1,3) obtain p where
    p: "processValue fuel ?c [] val 0 (VObject [([], val)]) 0 True = Return p"
    and r: "(case p of Processed r n \<Rightarrow> Some r | ProcessedNull \<Rightarrow> None | ProcessedUndefined \<Rightarrow> None) = Some s"
    by (auto simp: stringify_def dest!: and_then_Return split: if_splits)
  from r obtain n where "p = Processed s n" by (cases p) auto
  with p layout_lines [OF ind, of fuel] have "value_ok ?c 0 s" by blast
  then show ?thesis by (rule value_ok_lines)
qed

text \<open>
  \<^verbatim>\<open>[[1, 2], [3, 4]]\<close> with \<^verbatim>\<open>maxLineLength: 8\<close>: the lines of the result are an opening
  bracket, two payloads of 8 characters (the first followed by a comma) and a closing
  bracket.
\<close>

theorem lines_within_budget_witness:
  "list_all (line_ok (closure_of (no_options\<lparr>opt_maxLineLength := Some 8\<rparr>)))
     (split_lines (text_of_lines [''['', ''  [ 1, 2 ],'', ''  [ 3, 4 ]'', '']'']))"
proof -
  let ?options = "no_options\<lparr>opt_maxLineLength := Some 8\<rparr>"
  have h1: "effective_indent (opt_indent ?options) \<noteq> []"
    by (simp add: no_options_def)
  have h2: "\<not> includes_newline (effective_indent (opt_indent ?options))"
    by (simp add: no_options_def includes_newline_def newline_def)
  have h3: "stringify 5 (VArray [VArray [VInt 1, VInt 2], VArray [VInt 3, VInt 4]]) ?options
            = Return (Some (text_of_lines [''['', ''  [ 1, 2 ],'', ''  [ 3, 4 ]'', '']'']))"
    by code_simp
  from lines_within_budget [OF h1 h2 h3] show ?thesis .
qed


text \<open>
  Claim C3 as stated fails where the budget is not applied. A label and its scalar stay
  on one line: with \<^verbatim>\<open>maxLineLength: 10\<close>, \<^verbatim>\<open>{ abcdefgh: 12, b: 3 }\<close> has a line of 14
  characters and a comma, and no scalar of it is wider than the budget. With
  \<^verbatim>\<open>maxLineLength: 0\<close> (the repository's test \<^verbatim>\<open>indent\<close>) the lines of the brackets are
  longer than the budget. With an empty indent the result is that of \<^verbatim>\<open>JSON.stringify\<close>,
  one line of any length.
\<close>

theorem line_budget_counterexample:
  \<open>stringify 5 (VObject [(''abcdefgh'', VInt 12), (''b'', VInt 3)])
      (no_options\<lparr>opt_maxLineLength := Some 10\<rparr>)
     = Return (Some (text_of_lines [''{'', ''  "abcdefgh": 12,'', ''  "b": 3'', ''}'']))
   \<and> line_widths (text_of_lines [''{'', ''  "abcdefgh": 12,'', ''  "b": 3'', ''}'']) = [1, 15, 6, 1]
   \<and> stringify 5 (VObject [(''a'', VInt 1), (''b'', VInt 2)])
       (no_options\<lparr>opt_maxLineLength := Some 0\<rparr>)
     = Return (Some (text_of_lines [''{'', ''  "a": 1,'', ''  "b": 2'', ''}'']))
   \<and> stringify 5 (VArray [VInt 1, VInt 2]) (no_options\<lparr>opt_indent := IndentNull, opt_maxLineLength := Some 3\<rparr>)
     = Return (Some ''[1,2]'')\<close>
  by code_simp

subsection \<open>The round trip\<close>

text \<open>Texts woven from items and separators.\<close>

lemma json_ws_simps [simp]: "json_ws []" "json_ws (a @ b) = (json_ws a \<and> json_ws b)"
  by (auto simp: json_ws_def)

lemma json_ws_Cons [simp]:
  "json_ws (ch # w) = ((ch = CHR '' '' \<or> ch = newline \<or> ch = CHR 0x09 \<or> ch = CHR 0x0D) \<and> json_ws w)"
  by (simp add: json_ws_def)



























end
